theory Spec2Isabelle
  imports Main "HOL-Library.Monad_Syntax"
begin

section \<open>JavaScript values\<close>

text \<open>
  The agent response is typed \<open>any\<close> in the source: it is whatever the JSON body of the
  reply decoded to, or \<open>undefined\<close>. A value is modelled as a JSON tree plus
  \<open>undefined\<close>. An object is the list of its own properties in the order JavaScript
  enumerates them (the keys of a real object are pairwise distinct; a lookup takes the
  first entry of a key). Numbers are the integer-valued ones: the program never computes
  with a number, it only tests one for truthiness and prints it. A \<open>string\<close> stands
  for a JavaScript string whose code units are all below 256, one \<open>char\<close> per code
  unit.
\<close>

datatype jsval =
    JUndefined
  | JNull
  | JBool bool
  | JNum int
  | JStr string
  | JArr "jsval list"
  | JObj "(string \<times> jsval) list"

text \<open>Truthiness, as \<open>!x\<close>, \<open>x && y\<close>, \<open>x || y\<close> and \<open>if (x)\<close> test it.\<close>

fun truthy :: "jsval \<Rightarrow> bool" where
  "truthy JUndefined = False"
| "truthy JNull = False"
| "truthy (JBool b) = b"
| "truthy (JNum n) = (n \<noteq> 0)"
| "truthy (JStr s) = (s \<noteq> [])"
| "truthy (JArr vs) = True"
| "truthy (JObj kvs) = True"

text \<open>\<open>typeof x === 'string'\<close>.\<close>

fun is_string :: "jsval \<Rightarrow> bool" where
  "is_string (JStr s) = True"
| "is_string v = False"

text \<open>\<open>a || b\<close> and \<open>a ?? b\<close>.\<close>

definition js_or :: "jsval \<Rightarrow> jsval \<Rightarrow> jsval" where
  "js_or a b = (if truthy a then a else b)"

fun nullish :: "jsval \<Rightarrow> bool" where
  "nullish JUndefined = True"
| "nullish JNull = True"
| "nullish v = False"

definition coalesce :: "jsval \<Rightarrow> jsval \<Rightarrow> jsval" where
  "coalesce a b = (if nullish a then b else a)"

text \<open>
  Property reads. \<open>opt_member v k\<close> is \<open>v?.k\<close>: \<open>undefined\<close> on \<open>null\<close> and
  \<open>undefined\<close>, the property otherwise. \<open>member v k\<close> is \<open>v.k\<close>, which throws a
  TypeError on \<open>null\<close> and \<open>undefined\<close>: the throw is the value \<open>None\<close>. The
  property names this program reads (\<open>text\<close>, \<open>message\<close>, \<open>data\<close>, \<open>summary\<close>,
  the result fields, the envelope fields) are no built-in property of a string, a number,
  a boolean or an array, so reading one of them there gives \<open>undefined\<close>.
\<close>

fun opt_member :: "jsval \<Rightarrow> string \<Rightarrow> jsval" where
  "opt_member (JObj kvs) k = (case map_of kvs k of Some v \<Rightarrow> v | None \<Rightarrow> JUndefined)"
| "opt_member v k = JUndefined"

definition member :: "jsval \<Rightarrow> string \<Rightarrow> jsval option" where
  "member v k = (if nullish v then None else Some (opt_member v k))"

section \<open>String primitives\<close>

text \<open>
  White space as \<open>trim()\<close> and the regular-expression class \<open>\s\<close> see it, among the
  code units below 256: tab, line feed, vertical tab, form feed, carriage return, space
  and the no-break space.
\<close>

definition is_space :: "char \<Rightarrow> bool" where
  "is_space c = (c \<in> set [CHR 0x09, CHR 0x0A, CHR 0x0B, CHR 0x0C, CHR 0x0D, CHR 0x20, CHR 0xA0])"

definition trim :: "string \<Rightarrow> string" where
  "trim s = rev (dropWhile is_space (rev (dropWhile is_space s)))"

text \<open>
  \<open>toLowerCase()\<close> on code units below 256: the letters A to Z, and the Latin-1 capitals
  0xC0 to 0xDE other than the multiplication sign 0xD7, move up by 32.
\<close>

definition lower_char :: "char \<Rightarrow> char" where
  "lower_char c =
     (let n = (of_char c :: nat) in
      if (65 \<le> n \<and> n \<le> 90) \<or> (192 \<le> n \<and> n \<le> 222 \<and> n \<noteq> 215) then char_of (n + 32) else c)"

definition toLowerCase :: "string \<Rightarrow> string" where
  "toLowerCase s = map lower_char s"

text \<open>\<open>s.replace(/\s+/g, '_')\<close>: every maximal run of white space becomes one underscore.\<close>

function replace_ws :: "string \<Rightarrow> string" where
  "replace_ws [] = []"
| "replace_ws (c # cs) =
     (if is_space c then CHR ''_'' # replace_ws (dropWhile is_space cs)
      else c # replace_ws cs)"
  by pat_completeness auto
termination
  by (relation "measure length") (auto simp: less_Suc_eq_le length_dropWhile_le)

text \<open>\<open>text.split('\n')\<close>: the pieces between line feeds; the empty string gives one empty piece.\<close>

fun split_nl :: "string \<Rightarrow> string list" where
  "split_nl [] = [[]]"
| "split_nl (c # cs) =
     (if c = CHR 0x0A then [] # split_nl cs
      else (case split_nl cs of [] \<Rightarrow> [[c]] | l # ls \<Rightarrow> (c # l) # ls))"

text \<open>\<open>s.indexOf(c)\<close>: the index of the first occurrence, \<open>-1\<close> when there is none.\<close>

fun indexOf :: "string \<Rightarrow> char \<Rightarrow> int" where
  "indexOf [] c = - 1"
| "indexOf (x # xs) c =
     (if x = c then 0 else (let i = indexOf xs c in if i = - 1 then - 1 else i + 1))"

text \<open>
  \<open>s.substring(start, end)\<close>: both indices are clamped to \<open>0 .. length\<close> and swapped
  when out of order; \<open>s.substring(start)\<close> runs to the end.
\<close>

definition substring :: "string \<Rightarrow> int \<Rightarrow> int \<Rightarrow> string" where
  "substring s start end =
     (let n = int (length s);
          a = max 0 (min start n);
          b = max 0 (min end n);
          lo = min a b;
          hi = max a b
      in take (nat (hi - lo)) (drop (nat lo) s))"

definition substring_from :: "string \<Rightarrow> int \<Rightarrow> string" where
  "substring_from s start = substring s start (int (length s))"

section \<open>The key-value line parser\<close>

record ImageGenResult =
  image_url :: jsval
  enhanced_prompt :: jsval
  original_prompt :: jsval
  style :: jsval
  generation_metadata :: jsval

text \<open>
  The fields are declared \<open>string\<close> in the source, but the extraction below copies
  whatever the untyped response holds, so a field is a value.
\<close>

definition empty_result :: ImageGenResult where
  "empty_result =
     \<lparr>image_url = JStr [], enhanced_prompt = JStr [], original_prompt = JStr [],
      style = JStr [], generation_metadata = JStr []\<rparr>"

definition line_key :: "string \<Rightarrow> int \<Rightarrow> string" where
  "line_key line colonIdx = replace_ws (toLowerCase (trim (substring line 0 colonIdx)))"

definition line_value :: "string \<Rightarrow> int \<Rightarrow> string" where
  "line_value line colonIdx = trim (substring_from line (colonIdx + 1))"

text \<open>The body of the \<open>for\<close> loop over the lines.\<close>

definition parse_line :: "ImageGenResult \<Rightarrow> string \<Rightarrow> ImageGenResult" where
  "parse_line result line =
     (let colonIdx = indexOf line CHR '':'' in
      if colonIdx = - 1 then result
      else
        let key = line_key line colonIdx;
            val = line_value line colonIdx
        in if key = ''image_url'' then result\<lparr>image_url := JStr val\<rparr>
           else if key = ''enhanced_prompt'' then result\<lparr>enhanced_prompt := JStr val\<rparr>
           else if key = ''original_prompt'' then result\<lparr>original_prompt := JStr val\<rparr>
           else if key = ''style'' then result\<lparr>style := JStr val\<rparr>
           else if key = ''generation_metadata'' then result\<lparr>generation_metadata := JStr val\<rparr>
           else result)"

text \<open>
  \<open>parseAgentTextResponse\<close>. The argument is declared \<open>string\<close> but checked at run
  time: a falsy or non-string argument gives the empty record.
\<close>

definition parseAgentTextResponse :: "jsval \<Rightarrow> ImageGenResult" where
  "parseAgentTextResponse text =
     (if \<not> truthy text \<or> \<not> is_string text then empty_result
      else (case text of
              JStr s \<Rightarrow> foldl parse_line empty_result (split_nl s)
            | _ \<Rightarrow> empty_result))"

text \<open>Reading a field of the record by its name, and the five names the parser knows.\<close>

definition known_fields :: "string list" where
  "known_fields =
     [''image_url'', ''enhanced_prompt'', ''original_prompt'', ''style'', ''generation_metadata'']"

definition field_of :: "string \<Rightarrow> ImageGenResult \<Rightarrow> jsval" where
  "field_of k r =
     (if k = ''image_url'' then image_url r
      else if k = ''enhanced_prompt'' then enhanced_prompt r
      else if k = ''original_prompt'' then original_prompt r
      else if k = ''style'' then style r
      else if k = ''generation_metadata'' then generation_metadata r
      else JUndefined)"

text \<open>What one line contributes: whether it sets the field \<open>k\<close>, and the value it stores.\<close>

definition line_sets :: "string \<Rightarrow> string \<Rightarrow> bool" where
  "line_sets k line =
     (indexOf line CHR '':'' \<noteq> - 1 \<and> line_key line (indexOf line CHR '':'') = k)"

definition line_stores :: "string \<Rightarrow> string" where
  "line_stores line = line_value line (indexOf line CHR '':'')"

subsection \<open>The parser as the specification words it\<close>

text \<open>
  The specification's \<open>parseKeyValueText\<close>: the key of a line is the text before its first
  colon, trimmed, lower-cased, white-space runs folded to an underscore; the value is the
  text after the first colon, trimmed; a value is stored under a known key only; a field
  never stored is the empty string.
\<close>

definition spec_key :: "string \<Rightarrow> string" where
  "spec_key line = replace_ws (toLowerCase (trim (takeWhile (\<lambda>c. c \<noteq> CHR '':'') line)))"

definition spec_value :: "string \<Rightarrow> string" where
  "spec_value line = trim (tl (dropWhile (\<lambda>c. c \<noteq> CHR '':'') line))"

definition spec_store :: "(string \<rightharpoonup> string) \<Rightarrow> string \<Rightarrow> (string \<rightharpoonup> string)" where
  "spec_store m line =
     (if CHR '':'' \<in> set line \<and> spec_key line \<in> set known_fields
      then m(spec_key line \<mapsto> spec_value line) else m)"

definition spec_field :: "(string \<rightharpoonup> string) \<Rightarrow> string \<Rightarrow> jsval" where
  "spec_field m k = JStr (case m k of None \<Rightarrow> [] | Some v \<Rightarrow> v)"

definition spec_record :: "(string \<rightharpoonup> string) \<Rightarrow> ImageGenResult" where
  "spec_record m =
     \<lparr>image_url = spec_field m ''image_url'',
      enhanced_prompt = spec_field m ''enhanced_prompt'',
      original_prompt = spec_field m ''original_prompt'',
      style = spec_field m ''style'',
      generation_metadata = spec_field m ''generation_metadata''\<rparr>"

definition spec_parseKeyValueText :: "string \<Rightarrow> ImageGenResult" where
  "spec_parseKeyValueText text = spec_record (foldl spec_store Map.empty (split_nl text))"

section \<open>Printing numbers and JSON text\<close>

text \<open>
  The decimal text of an integer, as \<open>Number.prototype.toString\<close>, a template literal
  and \<open>JSON.stringify\<close> print an integer-valued number below \<open>10^21\<close> in magnitude
  (every clock reading of \<open>Date.now()\<close> is one).
\<close>

definition digit_char :: "nat \<Rightarrow> char" where
  "digit_char d = ''0123456789'' ! d"

function show_nat :: "nat \<Rightarrow> string" where
  "show_nat n = (if n < 10 then [digit_char n] else show_nat (n div 10) @ [digit_char (n mod 10)])"
  by pat_completeness auto
termination
  by (relation "measure id") auto

definition show_int :: "int \<Rightarrow> string" where
  "show_int i = (if i < 0 then CHR ''-'' # show_nat (nat (- i)) else show_nat (nat i))"

text \<open>
  \<open>JSON.stringify\<close>. A string is quoted, with the quote, the backslash and the control
  characters below 0x20 escaped. An object prints its properties in enumeration order and
  skips those whose value is \<open>undefined\<close>; an array prints \<open>undefined\<close> as \<open>null\<close>;
  \<open>undefined\<close> itself has no JSON text and the call returns \<open>undefined\<close>, the value
  \<open>None\<close> here.
\<close>

definition hex_digit :: "nat \<Rightarrow> char" where
  "hex_digit d = ''0123456789abcdef'' ! d"

definition json_escape :: "char \<Rightarrow> string" where
  "json_escape c =
     (if c = CHR 0x22 then [CHR 0x5C, CHR 0x22]
      else if c = CHR 0x5C then [CHR 0x5C, CHR 0x5C]
      else if c = CHR 0x08 then [CHR 0x5C, CHR ''b'']
      else if c = CHR 0x0C then [CHR 0x5C, CHR ''f'']
      else if c = CHR 0x0A then [CHR 0x5C, CHR ''n'']
      else if c = CHR 0x0D then [CHR 0x5C, CHR ''r'']
      else if c = CHR 0x09 then [CHR 0x5C, CHR ''t'']
      else if (of_char c :: nat) < 32
        then [CHR 0x5C, CHR ''u'', CHR ''0'', CHR ''0'',
              hex_digit (of_char c div 16), hex_digit (of_char c mod 16)]
      else [c])"

definition json_quote :: "string \<Rightarrow> string" where
  "json_quote s = CHR 0x22 # concat (map json_escape s) @ [CHR 0x22]"

fun join_comma :: "string list \<Rightarrow> string" where
  "join_comma [] = []"
| "join_comma [x] = x"
| "join_comma (x # y # zs) = x @ '','' @ join_comma (y # zs)"

fun JSON_stringify :: "jsval \<Rightarrow> string option" where
  "JSON_stringify JUndefined = None"
| "JSON_stringify JNull = Some ''null''"
| "JSON_stringify (JBool b) = Some (if b then ''true'' else ''false'')"
| "JSON_stringify (JNum n) = Some (show_int n)"
| "JSON_stringify (JStr s) = Some (json_quote s)"
| "JSON_stringify (JArr vs) =
     Some (''['' @ join_comma
        (map (\<lambda>v. case JSON_stringify v of None \<Rightarrow> ''null'' | Some t \<Rightarrow> t) vs) @ '']'')"
| "JSON_stringify (JObj kvs) =
     Some (''{'' @ join_comma
        (concat (map (\<lambda>(k, v). case JSON_stringify v of None \<Rightarrow> []
                                 | Some t \<Rightarrow> [json_quote k @ '':'' @ t]) kvs)) @ ''}'')"

section \<open>The image-URL regular expression\<close>

text \<open>
  \<^verbatim>\<open>/https?:\/\/[^\s"',}]+\.(?:png|jpg|jpeg|gif|webp)/i\<close>, read as the backtracking matcher
  it is. Each function is one piece of the pattern, anchored at the start of its argument,
  and returns the number of characters the piece and everything after it consumed.

  Under the \<open>i\<close> flag a literal letter of the pattern matches itself in either case; no
  character outside ASCII matches an ASCII letter.
\<close>

definition ascii_lower :: "char \<Rightarrow> char" where
  "ascii_lower c =
     (let n = (of_char c :: nat) in if 65 \<le> n \<and> n \<le> 90 then char_of (n + 32) else c)"

fun ci_prefix :: "string \<Rightarrow> string \<Rightarrow> bool" where
  "ci_prefix [] s = True"
| "ci_prefix (p # ps) [] = False"
| "ci_prefix (p # ps) (c # cs) = (ascii_lower c = ascii_lower p \<and> ci_prefix ps cs)"

text \<open>The class \<^verbatim>\<open>[^\s"',}]\<close>.\<close>

definition url_char :: "char \<Rightarrow> bool" where
  "url_char c = (\<not> is_space c \<and> c \<notin> set [CHR 0x22, CHR 0x27, CHR '','', CHR ''}''])"

text \<open>\<^verbatim>\<open>(?:png|jpg|jpeg|gif|webp)\<close>, the alternatives tried in order.\<close>

definition match_ext :: "string \<Rightarrow> nat option" where
  "match_ext s =
     (if ci_prefix ''png'' s then Some 3
      else if ci_prefix ''jpg'' s then Some 3
      else if ci_prefix ''jpeg'' s then Some 4
      else if ci_prefix ''gif'' s then Some 3
      else if ci_prefix ''webp'' s then Some 4
      else None)"

text \<open>\<^verbatim>\<open>\.(?:png|jpg|jpeg|gif|webp)\<close>.\<close>

definition match_dot_ext :: "string \<Rightarrow> nat option" where
  "match_dot_ext s = (if ci_prefix ''.'' s then map_option Suc (match_ext (drop 1 s)) else None)"

text \<open>
  \<^verbatim>\<open>[^\s"',}]+\<close> followed by the rest: the greedy quantifier first takes the whole run
  of class characters and gives them back one by one, down to one, until the rest matches.
  \<open>match_run n s\<close> tries the run lengths \<open>n\<close>, \<open>n - 1\<close>, ..., \<open>1\<close>.
\<close>

fun match_run :: "nat \<Rightarrow> string \<Rightarrow> nat option" where
  "match_run 0 s = None"
| "match_run (Suc n) s =
     (case match_dot_ext (drop (Suc n) s) of
        Some e \<Rightarrow> Some (Suc n + e)
      | None \<Rightarrow> match_run n s)"

text \<open>\<^verbatim>\<open>:\/\/[^\s"',}]+\.(?:png|jpg|jpeg|gif|webp)\<close>.\<close>

definition match_after_scheme :: "string \<Rightarrow> nat option" where
  "match_after_scheme s =
     (if ci_prefix ''://'' s
      then map_option (\<lambda>k. 3 + k)
             (match_run (length (takeWhile url_char (drop 3 s))) (drop 3 s))
      else None)"

text \<open>The whole pattern; the greedy \<^verbatim>\<open>s?\<close> first tries to take an \<open>s\<close>, then to take none.\<close>

definition match_here :: "string \<Rightarrow> nat option" where
  "match_here s =
     (if ci_prefix ''http'' s
      then (case (if ci_prefix ''s'' (drop 4 s) then match_after_scheme (drop 5 s) else None) of
              Some k \<Rightarrow> Some (5 + k)
            | None \<Rightarrow> map_option (\<lambda>k. 4 + k) (match_after_scheme (drop 4 s)))
      else None)"

text \<open>
  \<open>str.match(re)\<close> without the \<open>g\<close> flag: the match at the leftmost position that has
  one, as \<open>urlMatch[0]\<close>; \<open>None\<close> is the \<open>null\<close> of no match.
\<close>

fun regex_search :: "string \<Rightarrow> string option" where
  "regex_search [] = None"
| "regex_search (c # cs) =
     (case match_here (c # cs) of
        Some n \<Rightarrow> Some (take n (c # cs))
      | None \<Rightarrow> regex_search cs)"

section \<open>Extraction of the image result\<close>

text \<open>
  \<open>extractImageResult\<close> is a chain of cases, each returning or falling through to the
  next; the chain is written here from its last link to its first. \<open>None\<close> is a thrown
  exception: a read \<open>v.k\<close> of a \<open>null\<close> or \<open>undefined\<close> \<open>v\<close>, or \<open>str.match\<close>
  on an \<open>undefined\<close> \<open>str\<close>.
\<close>

text \<open>\<open>a && typeof b === 'string'\<close>, where evaluating \<open>b\<close> may throw.\<close>

definition and_is_string :: "jsval \<Rightarrow> jsval option \<Rightarrow> bool option" where
  "and_is_string a b = (if truthy a then map_option is_string b else Some False)"

text \<open>\<open>v.k1.k2\<close>.\<close>

definition member2 :: "jsval \<Rightarrow> string \<Rightarrow> string \<Rightarrow> jsval option" where
  "member2 v k1 k2 = do { d \<leftarrow> member v k1; member d k2 }"

text \<open>The fallback: find an image URL anywhere in the JSON text of the response.\<close>

definition extract_fallback :: "jsval \<Rightarrow> ImageGenResult option" where
  "extract_fallback agentResult =
     do {
       str \<leftarrow> JSON_stringify (js_or agentResult (JObj []));
       (case regex_search str of
          Some m \<Rightarrow>
            Some \<lparr>image_url = JStr m,
                  enhanced_prompt =
                    js_or (js_or (opt_member agentResult ''enhanced_prompt'') (opt_member agentResult ''summary''))
                          (JStr []),
                  original_prompt = js_or (opt_member agentResult ''original_prompt'') (JStr []),
                  style = js_or (opt_member agentResult ''style'') (JStr []),
                  generation_metadata = JStr []\<rparr>
        | None \<Rightarrow> Some empty_result)
     }"

text \<open>Case 5: the response itself is a string.\<close>

definition extract_case5 :: "jsval \<Rightarrow> ImageGenResult option" where
  "extract_case5 agentResult =
     (if is_string agentResult then Some (parseAgentTextResponse agentResult)
      else extract_fallback agentResult)"

text \<open>Case 4: the response has the fields directly.\<close>

definition extract_case4 :: "jsval \<Rightarrow> ImageGenResult option" where
  "extract_case4 agentResult =
     (if truthy (opt_member agentResult ''image_url'') then
        do {
          iu \<leftarrow> member agentResult ''image_url'';
          ep \<leftarrow> member agentResult ''enhanced_prompt'';
          op \<leftarrow> member agentResult ''original_prompt'';
          st \<leftarrow> member agentResult ''style'';
          gm \<leftarrow> member agentResult ''generation_metadata'';
          Some \<lparr>image_url = js_or iu (JStr []), enhanced_prompt = js_or ep (JStr []),
                original_prompt = js_or op (JStr []), style = js_or st (JStr []),
                generation_metadata = js_or gm (JStr [])\<rparr>
        }
      else extract_case5 agentResult)"

text \<open>Case 3: the response has a \<open>data\<close> object.\<close>

definition extract_case3 :: "jsval \<Rightarrow> ImageGenResult option" where
  "extract_case3 agentResult =
     (if truthy (opt_member agentResult ''data'') then
        do {
          iu \<leftarrow> member2 agentResult ''data'' ''image_url'';
          ep \<leftarrow> member2 agentResult ''data'' ''enhanced_prompt'';
          op \<leftarrow> member2 agentResult ''data'' ''original_prompt'';
          st \<leftarrow> member2 agentResult ''data'' ''style'';
          gm \<leftarrow> member2 agentResult ''data'' ''generation_metadata'';
          Some \<lparr>image_url = js_or iu (JStr []), enhanced_prompt = js_or ep (JStr []),
                original_prompt = js_or op (JStr []), style = js_or st (JStr []),
                generation_metadata = js_or gm (JStr [])\<rparr>
        }
      else extract_case4 agentResult)"

text \<open>Case 2: \<open>message\<close> is a text; its parse is returned only if it has an image URL.\<close>

definition extract_case2 :: "jsval \<Rightarrow> ImageGenResult option" where
  "extract_case2 agentResult =
     do {
       c \<leftarrow> and_is_string (opt_member agentResult ''message'') (member agentResult ''message'');
       if c then
         do {
           m \<leftarrow> member agentResult ''message'';
           let parsed = parseAgentTextResponse m;
           if truthy (image_url parsed) then Some parsed else extract_case3 agentResult
         }
       else extract_case3 agentResult
     }"

text \<open>Case 1: \<open>text\<close> is a text; its parse is returned whatever it holds.\<close>

definition extractImageResult :: "jsval \<Rightarrow> ImageGenResult option" where
  "extractImageResult agentResult =
     do {
       c \<leftarrow> and_is_string (opt_member agentResult ''text'') (member agentResult ''text'');
       if c then
         do {
           t \<leftarrow> member agentResult ''text'';
           Some (parseAgentTextResponse t)
         }
       else extract_case2 agentResult
     }"

section \<open>The image-mode generation handler\<close>

record GenerationParams =
  gp_style :: string
  gp_size :: string
  gp_quality :: string

record HistoryItem =
  h_id :: string
  h_prompt :: string
  h_style :: string
  h_size :: string
  h_quality :: string
  h_result :: "ImageGenResult option"
  h_timestamp :: int

text \<open>\<open>result.success && result?.response?.status === 'success'\<close>.\<close>

definition generation_ok :: "jsval \<Rightarrow> bool option" where
  "generation_ok result =
     do {
       s \<leftarrow> member result ''success'';
       Some (truthy s \<and> opt_member (opt_member result ''response'') ''status'' = JStr ''success'')
     }"

text \<open>
  The block both text fallbacks share: when the parsed text has an image URL, take it, and
  take its enhanced prompt and style where the record has none.
\<close>

definition fill_from :: "ImageGenResult \<Rightarrow> ImageGenResult \<Rightarrow> ImageGenResult" where
  "fill_from imageData parsed =
     (if truthy (image_url parsed) then
        let d1 = imageData\<lparr>image_url := image_url parsed\<rparr>;
            d2 = (if \<not> truthy (enhanced_prompt d1)
                  then d1\<lparr>enhanced_prompt := enhanced_prompt parsed\<rparr> else d1)
        in (if \<not> truthy (style d2) then d2\<lparr>style := style parsed\<rparr> else d2)
      else imageData)"

text \<open>
  The success branch up to \<open>setCurrentResult(imageData)\<close>: extraction, the fallback on
  \<open>result.response.message\<close>, the fallback on \<open>result.raw_response\<close>, and the original
  prompt filled from the submitted prompt.
\<close>

definition finish_imageData :: "jsval \<Rightarrow> string \<Rightarrow> ImageGenResult option" where
  "finish_imageData result prompt =
     do {
       let agentResult = opt_member (opt_member result ''response'') ''result'';
       imageData \<leftarrow> extractImageResult agentResult;
       imageData1 \<leftarrow>
         (if \<not> truthy (image_url imageData) \<and>
             truthy (opt_member (opt_member result ''response'') ''message'')
          then do {
                 msg \<leftarrow> member2 result ''response'' ''message'';
                 Some (fill_from imageData (parseAgentTextResponse msg))
               }
          else Some imageData);
       imageData2 \<leftarrow>
         (if \<not> truthy (image_url imageData1) \<and> truthy (opt_member result ''raw_response'')
          then do {
                 raw \<leftarrow> member result ''raw_response'';
                 Some (fill_from imageData1 (parseAgentTextResponse raw))
               }
          else Some imageData1);
       Some (if \<not> truthy (original_prompt imageData2)
             then imageData2\<lparr>original_prompt := JStr (trim prompt)\<rparr>
             else imageData2)
     }"

text \<open>The identifier \<^verbatim>\<open>`gen-${Date.now()}`\<close> of a new history entry, from the clock reading.\<close>

definition gen_id :: "int \<Rightarrow> string" where
  "gen_id now = ''gen-'' @ show_int now"

text \<open>
  The new history entry. \<open>Date.now()\<close> is read twice, for the identifier and for the time
  stamp.
\<close>

definition newItem ::
  "int \<Rightarrow> int \<Rightarrow> string \<Rightarrow> GenerationParams \<Rightarrow> ImageGenResult \<Rightarrow> HistoryItem" where
  "newItem now_id now_ts prompt params imageData =
     \<lparr>h_id = gen_id now_id, h_prompt = trim prompt, h_style = gp_style params,
      h_size = gp_size params, h_quality = gp_quality params, h_result = Some imageData,
      h_timestamp = now_ts\<rparr>"

text \<open>\<open>xs.slice(start, end)\<close> for indices that are not negative.\<close>

definition slice :: "'a list \<Rightarrow> nat \<Rightarrow> nat \<Rightarrow> 'a list" where
  "slice xs start end = take (end - start) (drop start xs)"

text \<open>
  The history update \<open>(prev) => [newItem, ...prev.slice(0, 49)]\<close>, the same expression in
  both page variants.
\<close>

definition push_history :: "'a \<Rightarrow> 'a list \<Rightarrow> 'a list" where
  "push_history item prev = item # slice prev 0 49"

text \<open>
  The handler as a step on the component state. Its inputs are the state, what the awaited
  agent call gave (\<open>None\<close> when the call rejected) and the two clock readings. Every
  exception inside the \<open>try\<close> block ends in the \<open>catch\<close> branch.
\<close>

record app_state =
  prompt :: string
  params :: GenerationParams
  loading :: bool
  error :: jsval
  copied :: bool
  currentResult :: "ImageGenResult option"
  history :: "HistoryItem list"
  activeHistoryId :: "string option"

definition caught :: "app_state \<Rightarrow> app_state" where
  "caught st =
     st\<lparr>loading := False, copied := False, currentResult := None,
        error := JStr ''An unexpected error occurred. Please try again.''\<rparr>"

definition handleGenerate :: "app_state \<Rightarrow> jsval option \<Rightarrow> int \<Rightarrow> int \<Rightarrow> app_state" where
  "handleGenerate st response now_id now_ts =
     (if trim (prompt st) = [] \<or> loading st then st
      else
        (case response of
           None \<Rightarrow> caught st
         | Some result \<Rightarrow>
             (case generation_ok result of
                None \<Rightarrow> caught st
              | Some False \<Rightarrow>
                  st\<lparr>loading := False, copied := False, currentResult := None,
                     error :=
                       coalesce
                         (coalesce (opt_member (opt_member result ''response'') ''message'')
                            (opt_member result ''error''))
                         (JStr ''Failed to generate image. Please try again.'')\<rparr>
              | Some True \<Rightarrow>
                  (case finish_imageData result (prompt st) of
                     None \<Rightarrow> caught st
                   | Some imageData \<Rightarrow>
                       let item = newItem now_id now_ts (prompt st) (params st) imageData
                       in st\<lparr>loading := False, copied := False, error := JNull,
                             currentResult := Some imageData,
                             history := push_history item (history st),
                             activeHistoryId := Some (h_id item)\<rparr>))))"

section \<open>The enhancement-mode extraction\<close>

record ImageGenData =
  ed_enhanced_prompt :: jsval
  style_suggestion :: jsval
  size_recommendation :: jsval
  quality_notes :: jsval
  ed_original_prompt :: jsval

record ImageDataResult =
  data :: ImageGenData
  summary :: jsval

text \<open>
  \<open>extractImageData\<close> of the enhancement page: optional reads joined by \<open>??\<close>, which
  falls to its right operand on \<open>null\<close> and \<open>undefined\<close> only.
\<close>

definition extractImageData :: "jsval \<Rightarrow> ImageDataResult" where
  "extractImageData result =
     (let summary = coalesce (opt_member result ''summary'') (JStr []);
          nested = opt_member result ''data'';
          data =
            \<lparr>ed_enhanced_prompt =
               coalesce (coalesce (opt_member nested ''enhanced_prompt'')
                 (opt_member result ''enhanced_prompt'')) (JStr []),
             style_suggestion =
               coalesce (coalesce (opt_member nested ''style_suggestion'')
                 (opt_member result ''style_suggestion'')) (JStr []),
             size_recommendation =
               coalesce (coalesce (opt_member nested ''size_recommendation'')
                 (opt_member result ''size_recommendation'')) (JStr []),
             quality_notes =
               coalesce (coalesce (opt_member nested ''quality_notes'')
                 (opt_member result ''quality_notes'')) (JStr []),
             ed_original_prompt =
               coalesce (coalesce (opt_member nested ''original_prompt'')
                 (opt_member result ''original_prompt'')) (JStr [])\<rparr>
      in \<lparr>data = data, summary = summary\<rparr>)"

section \<open>Notions used to state the claims\<close>

text \<open>
  A field value is \<open>normal\<close> when it is truthy or the empty string: for such a value
  "empty" and "falsy" say the same.
\<close>

definition normal :: "jsval \<Rightarrow> bool" where
  "normal v = (truthy v \<or> v = JStr [])"

definition all_normal :: "ImageGenResult \<Rightarrow> bool" where
  "all_normal r =
     (normal (image_url r) \<and> normal (enhanced_prompt r) \<and> normal (original_prompt r) \<and>
      normal (style r) \<and> normal (generation_metadata r))"

text \<open>
  The caller's fallbacks as the specification words them. The parse that serves as
  fallback: none while the extracted record has an image URL; else the parse of
  \<open>response.message\<close> if that has an image URL; else the parse of \<open>raw_response\<close> if
  that has one. The fallback gives the image URL, and the enhanced prompt and the style
  where the record has none; at the end an empty original prompt becomes the trimmed
  prompt of the user.
\<close>

definition spec_fallback_parse :: "ImageGenResult \<Rightarrow> jsval \<Rightarrow> jsval \<Rightarrow> ImageGenResult option" where
  "spec_fallback_parse d0 msg raw =
     (if truthy (image_url d0) then None
      else if truthy (image_url (parseAgentTextResponse msg)) then Some (parseAgentTextResponse msg)
      else if truthy (image_url (parseAgentTextResponse raw)) then Some (parseAgentTextResponse raw)
      else None)"

definition spec_finish :: "ImageGenResult \<Rightarrow> jsval \<Rightarrow> jsval \<Rightarrow> string \<Rightarrow> ImageGenResult" where
  "spec_finish d0 msg raw submitted =
     \<lparr>image_url =
        (case spec_fallback_parse d0 msg raw of None \<Rightarrow> image_url d0 | Some p \<Rightarrow> image_url p),
      enhanced_prompt =
        (case spec_fallback_parse d0 msg raw of
           None \<Rightarrow> enhanced_prompt d0
         | Some p \<Rightarrow> if truthy (enhanced_prompt d0) then enhanced_prompt d0 else enhanced_prompt p),
      original_prompt =
        (if truthy (original_prompt d0) then original_prompt d0 else JStr (trim submitted)),
      style =
        (case spec_fallback_parse d0 msg raw of
           None \<Rightarrow> style d0
         | Some p \<Rightarrow> if truthy (style d0) then style d0 else style p),
      generation_metadata = generation_metadata d0\<rparr>"

text \<open>
  The texts the regular expression is after, as the specification words them: \<open>http\<close>
  or \<open>https\<close> in any case, \<open>://\<close>, at least one character that is neither white space
  nor one of \<^verbatim>\<open>" ' , }\<close>, a dot, and one of the image extensions in any case.
\<close>

definition image_exts :: "string list" where
  "image_exts = [''png'', ''jpg'', ''jpeg'', ''gif'', ''webp'']"

inductive image_url_text :: "string \<Rightarrow> bool" where
  "map ascii_lower scheme \<in> set [''http'', ''https''] \<Longrightarrow>
   body \<noteq> [] \<Longrightarrow> list_all url_char body \<Longrightarrow>
   map ascii_lower ext \<in> set image_exts \<Longrightarrow>
   image_url_text (scheme @ ''://'' @ body @ ''.'' @ ext)"

text \<open>One text fallback of the caller: its guard and its block.\<close>

definition fallback_step :: "ImageGenResult \<Rightarrow> jsval \<Rightarrow> ImageGenResult" where
  "fallback_step d src =
     (if \<not> truthy (image_url d) \<and> truthy src then fill_from d (parseAgentTextResponse src)
      else d)"

section \<open>Properties of the string primitives\<close>

lemma indexOf_absent: "c \<notin> set s \<Longrightarrow> indexOf s c = - 1"
  by (induction s) auto

lemma indexOf_present:
  "c \<in> set s \<Longrightarrow> indexOf s c = int (length (takeWhile (\<lambda>x. x \<noteq> c) s))"
  by (induction s) (auto simp: Let_def)

lemma indexOf_minus_one_iff: "indexOf s c = - 1 \<longleftrightarrow> c \<notin> set s"
proof
  assume "indexOf s c = - 1"
  show "c \<notin> set s"
  proof
    assume "c \<in> set s"
    then have "0 \<le> indexOf s c" by (simp add: indexOf_present)
    with \<open>indexOf s c = - 1\<close> show False by simp
  qed
qed (rule indexOf_absent)

lemma substring_prefix: "0 \<le> k \<Longrightarrow> substring s 0 k = take (nat k) s"
  by (cases "k \<le> int (length s)") (simp_all add: substring_def Let_def min_def max_def)

lemma substring_from_drop: "0 \<le> k \<Longrightarrow> substring_from s k = drop (nat k) s"
  by (cases "k \<le> int (length s)")
     (simp_all add: substring_from_def substring_def Let_def min_def max_def nat_diff_distrib)

lemma line_key_spec:
  assumes "CHR '':'' \<in> set line"
  shows "line_key line (indexOf line CHR '':'') = spec_key line"
  using assms
  by (simp add: line_key_def spec_key_def indexOf_present substring_prefix
      takeWhile_eq_take [symmetric])

lemma line_value_spec:
  assumes "CHR '':'' \<in> set line"
  shows "line_value line (indexOf line CHR '':'') = spec_value line"
proof -
  let ?n = "length (takeWhile (\<lambda>c. c \<noteq> CHR '':'') line)"
  have "substring_from line (int ?n + 1) = drop (Suc ?n) line"
    by (simp add: substring_from_drop nat_add_distrib)
  also have "\<dots> = tl (dropWhile (\<lambda>c. c \<noteq> CHR '':'') line)"
    by (simp add: dropWhile_eq_drop drop_Suc tl_drop)
  finally show ?thesis
    using assms by (simp add: line_value_def spec_value_def indexOf_present)
qed

section \<open>Properties of the parser\<close>

lemma field_of_empty_result: "k \<in> set known_fields \<Longrightarrow> field_of k empty_result = JStr []"
  by (auto simp: known_fields_def field_of_def empty_result_def)

lemma parse_line_field:
  assumes "k \<in> set known_fields"
  shows "field_of k (parse_line r line) =
           (if line_sets k line then JStr (line_stores line) else field_of k r)"
  using assms
  by (auto simp: known_fields_def field_of_def parse_line_def line_sets_def line_stores_def
      Let_def)

lemma foldl_parse_line_field:
  assumes "k \<in> set known_fields"
  shows "field_of k (foldl parse_line r ls) =
           (if filter (line_sets k) ls = [] then field_of k r
            else JStr (line_stores (last (filter (line_sets k) ls))))"
proof (induction ls rule: rev_induct)
  case Nil
  show ?case by simp
next
  case (snoc l ls)
  show ?case
    using snoc.IH by (simp add: parse_line_field [OF assms])
qed

lemma parseAgentTextResponse_string:
  "parseAgentTextResponse (JStr s) = foldl parse_line empty_result (split_nl s)"
proof (cases s)
  case Nil
  have "parse_line empty_result [] = empty_result"
    by (simp add: parse_line_def)
  with Nil show ?thesis
    by (simp add: parseAgentTextResponse_def)
next
  case (Cons c cs)
  then show ?thesis
    by (simp add: parseAgentTextResponse_def)
qed

lemma spec_store_step: "spec_record (spec_store m line) = parse_line (spec_record m) line"
proof (cases "CHR '':'' \<in> set line")
  case False
  then show ?thesis
    by (simp add: spec_store_def parse_line_def indexOf_absent)
next
  case True
  then have idx: "indexOf line CHR '':'' \<noteq> - 1"
    by (simp add: indexOf_minus_one_iff)
  show ?thesis
    using True idx
    by (auto simp: spec_store_def parse_line_def Let_def line_key_spec line_value_spec
        known_fields_def spec_record_def spec_field_def)
qed

lemma spec_store_foldl:
  "spec_record (foldl spec_store m ls) = foldl parse_line (spec_record m) ls"
  by (induction ls arbitrary: m) (simp_all add: spec_store_step)

lemma spec_record_empty: "spec_record Map.empty = empty_result"
  by (simp add: spec_record_def spec_field_def empty_result_def)

section \<open>Claims about the key-value line parser\<close>

text \<open>
  Claim C1. For every string \<open>text\<close>, \<open>parseAgentTextResponse\<close> returns the record the
  specification describes: the text is split at line feeds; a line with a colon has the
  key before its first colon (trimmed, lower-cased, white-space runs replaced by one
  underscore) and the trimmed value after it; the value is stored when the key is one of
  the five known names; every other line contributes nothing and every field never stored
  is the empty string. The parser is a total function of the text, so no input makes it
  fail. The scenario of the specification evaluates as stated.
\<close>

theorem C1_parser_meets_spec:
  "parseAgentTextResponse (JStr text) = spec_parseKeyValueText text \<and>
   parseAgentTextResponse
     (JStr ''image_url: http://a.com/i.png\<newline>enhanced_prompt: a cat'') =
     \<lparr>image_url = JStr ''http://a.com/i.png'', enhanced_prompt = JStr ''a cat'',
      original_prompt = JStr [], style = JStr [], generation_metadata = JStr []\<rparr>"
proof
  show "parseAgentTextResponse (JStr text) = spec_parseKeyValueText text"
    by (simp add: parseAgentTextResponse_string spec_parseKeyValueText_def spec_store_foldl
        spec_record_empty)
  show "parseAgentTextResponse
     (JStr ''image_url: http://a.com/i.png\<newline>enhanced_prompt: a cat'') =
     \<lparr>image_url = JStr ''http://a.com/i.png'', enhanced_prompt = JStr ''a cat'',
      original_prompt = JStr [], style = JStr [], generation_metadata = JStr []\<rparr>"
    by code_simp
qed

theorem C1_parser_meets_spec_witness:
  "spec_parseKeyValueText ''Image  URL : u.png\<newline>no colon here\<newline>colour: red'' =
     \<lparr>image_url = JStr ''u.png'', enhanced_prompt = JStr [], original_prompt = JStr [],
      style = JStr [], generation_metadata = JStr []\<rparr>"
proof -
  have "parseAgentTextResponse
          (JStr ''Image  URL : u.png\<newline>no colon here\<newline>colour: red'') =
        \<lparr>image_url = JStr ''u.png'', enhanced_prompt = JStr [], original_prompt = JStr [],
         style = JStr [], generation_metadata = JStr []\<rparr>"
    by code_simp
  then show ?thesis
    using C1_parser_meets_spec
      [of "''Image  URL : u.png\<newline>no colon here\<newline>colour: red''"]
    by simp
qed

text \<open>
  Claim C10. When a recognized key occurs on several lines, the last such line wins: the
  field holds the value of the last line that sets it, whatever earlier lines stored, and
  the empty string when no line sets it. So a later line replaces an earlier non-empty
  value, also by the empty string when nothing but white space follows its colon.
\<close>

theorem C10_last_line_wins:
  assumes "k \<in> set known_fields"
  shows "field_of k (parseAgentTextResponse (JStr text)) =
           (if filter (line_sets k) (split_nl text) = [] then JStr []
            else JStr (line_stores (last (filter (line_sets k) (split_nl text)))))"
  by (simp add: parseAgentTextResponse_string foldl_parse_line_field [OF assms]
      field_of_empty_result [OF assms])

theorem C10_last_line_wins_witness:
  "''style'' \<in> set known_fields \<and>
   filter (line_sets ''style'') (split_nl ''style: oil\<newline>Style: ink\<newline>STYLE:  '') =
     [''style: oil'', ''Style: ink'', ''STYLE:  ''] \<and>
   field_of ''style'' (parseAgentTextResponse (JStr ''style: oil\<newline>Style: ink'')) = JStr ''ink'' \<and>
   field_of ''style''
     (parseAgentTextResponse (JStr ''style: oil\<newline>Style: ink\<newline>STYLE:  '')) = JStr []"
proof -
  have k: "''style'' \<in> set known_fields"
    by (simp add: known_fields_def)
  have f1: "filter (line_sets ''style'') (split_nl ''style: oil\<newline>Style: ink'') =
              [''style: oil'', ''Style: ink'']"
    by code_simp
  have f2: "filter (line_sets ''style'')
              (split_nl ''style: oil\<newline>Style: ink\<newline>STYLE:  '') =
              [''style: oil'', ''Style: ink'', ''STYLE:  '']"
    by code_simp
  have v1: "line_stores ''Style: ink'' = ''ink''"
    by code_simp
  have v2: "line_stores ''STYLE:  '' = []"
    by code_simp
  from C10_last_line_wins [OF k, of "''style: oil\<newline>Style: ink''"]
  have "field_of ''style'' (parseAgentTextResponse (JStr ''style: oil\<newline>Style: ink'')) =
          (if [''style: oil'', ''Style: ink''] = [] then JStr []
           else JStr (line_stores (last [''style: oil'', ''Style: ink''])))"
    by (simp only: f1)
  then have r1:
    "field_of ''style'' (parseAgentTextResponse (JStr ''style: oil\<newline>Style: ink'')) =
       JStr ''ink''"
    by (simp add: v1)
  from C10_last_line_wins [OF k, of "''style: oil\<newline>Style: ink\<newline>STYLE:  ''"]
  have "field_of ''style''
          (parseAgentTextResponse (JStr ''style: oil\<newline>Style: ink\<newline>STYLE:  '')) =
          (if [''style: oil'', ''Style: ink'', ''STYLE:  ''] = [] then JStr []
           else JStr (line_stores (last [''style: oil'', ''Style: ink'', ''STYLE:  ''])))"
    by (simp only: f2)
  then have r2:
    "field_of ''style''
       (parseAgentTextResponse (JStr ''style: oil\<newline>Style: ink\<newline>STYLE:  '')) = JStr []"
    by (simp add: v2)
  from k f2 r1 r2 show ?thesis
    by (intro conjI)
qed

section \<open>Properties of property reads\<close>

lemma member_defined: "opt_member v k \<noteq> JUndefined \<Longrightarrow> member v k = Some (opt_member v k)"
  by (cases v) (simp_all add: member_def)

lemma truthy_opt_member: "truthy (opt_member v k) \<Longrightarrow> member v k = Some (opt_member v k)"
  by (rule member_defined) auto

lemma coalesce_cases:
  "coalesce (coalesce a b) c = (if \<not> nullish a then a else if \<not> nullish b then b else c)"
  by (simp add: coalesce_def)

section \<open>Properties of the decimal text\<close>

declare show_nat.simps [simp del]

lemma digit_char_mem: "d < 10 \<Longrightarrow> digit_char d \<in> set ''0123456789''"
  unfolding digit_char_def by (rule nth_mem) simp

lemma digit_char_inj:
  assumes "a < 10" and "b < 10" and "digit_char a = digit_char b"
  shows "a = b"
proof -
  have "distinct ''0123456789''" by simp
  then have "(''0123456789'' ! a = ''0123456789'' ! b) = (a = b)"
    using assms(1,2) by (intro nth_eq_iff_index_eq) simp_all
  with assms(3) show ?thesis by (simp add: digit_char_def)
qed

lemma show_nat_digits: "set (show_nat n) \<subseteq> set ''0123456789''"
proof (induction n rule: show_nat.induct)
  case (1 n)
  show ?case
  proof (cases "n < 10")
    case True
    then show ?thesis
      using digit_char_mem [of n] by (subst show_nat.simps) simp
  next
    case False
    then show ?thesis
      using "1.IH" digit_char_mem [of "n mod 10"] by (subst show_nat.simps) simp
  qed
qed

lemma show_nat_nonempty: "show_nat n \<noteq> []"
  by (subst show_nat.simps) simp

lemma show_nat_inj: "show_nat n = show_nat m \<Longrightarrow> n = m"
proof (induction n arbitrary: m rule: show_nat.induct)
  case (1 n)
  show ?case
  proof (cases "n < 10")
    case n: True
    show ?thesis
    proof (cases "m < 10")
      case True
      with n "1.prems" show ?thesis
        by (simp add: show_nat.simps [of n] show_nat.simps [of m] digit_char_inj)
    next
      case False
      with n "1.prems" show_nat_nonempty [of "m div 10"] show ?thesis
        by (simp add: show_nat.simps [of n] show_nat.simps [of m])
    qed
  next
    case n: False
    show ?thesis
    proof (cases "m < 10")
      case True
      with n "1.prems" show_nat_nonempty [of "n div 10"] show ?thesis
        by (simp add: show_nat.simps [of n] show_nat.simps [of m])
    next
      case False
      with n "1.prems"
      have eq: "show_nat (n div 10) = show_nat (m div 10)"
        and d: "digit_char (n mod 10) = digit_char (m mod 10)"
        by (simp_all add: show_nat.simps [of n] show_nat.simps [of m])
      from "1.IH" [OF n eq] have "n div 10 = m div 10" .
      moreover from d have "n mod 10 = m mod 10"
        by (intro digit_char_inj) simp_all
      ultimately show ?thesis
        by (metis div_mult_mod_eq)
    qed
  qed
qed

lemma minus_not_digit: "CHR ''-'' \<notin> set (show_nat n)"
  using show_nat_digits [of n] by auto

lemma show_int_inj: "show_int a = show_int b \<Longrightarrow> a = b"
proof -
  assume eq: "show_int a = show_int b"
  consider "a < 0" "b < 0" | "a < 0" "\<not> b < 0" | "\<not> a < 0" "b < 0" | "\<not> a < 0" "\<not> b < 0"
    by blast
  then show ?thesis
  proof cases
    case 1
    with eq have "nat (- a) = nat (- b)"
      by (simp add: show_int_def show_nat_inj)
    with 1 show ?thesis by simp
  next
    case 2
    with eq have "CHR ''-'' # show_nat (nat (- a)) = show_nat (nat b)"
      by (simp add: show_int_def)
    then have "CHR ''-'' \<in> set (show_nat (nat b))"
      by (metis list.set_intros(1))
    then show ?thesis by (simp add: minus_not_digit)
  next
    case 3
    with eq have "show_nat (nat a) = CHR ''-'' # show_nat (nat (- b))"
      by (simp add: show_int_def)
    then have "CHR ''-'' \<in> set (show_nat (nat a))"
      by (metis list.set_intros(1))
    then show ?thesis by (simp add: minus_not_digit)
  next
    case 4
    with eq have "nat a = nat b"
      by (simp add: show_int_def show_nat_inj)
    with 4 show ?thesis by simp
  qed
qed

lemma gen_id_inj: "gen_id a = gen_id b \<longleftrightarrow> a = b"
  by (auto simp: gen_id_def dest: show_int_inj)

section \<open>Properties of the history update\<close>

lemma push_history_take: "push_history e prev = take 50 (e # prev)"
  by (simp add: push_history_def slice_def take_Cons')

lemma take_append_take: "take n (xs @ take n ys) = take n (xs @ ys)"
  by (simp add: min_def)

lemma foldl_push_history:
  "length h \<le> 50 \<Longrightarrow> foldl (\<lambda>h e. push_history e h) h es = take 50 (rev es @ h)"
proof (induction es arbitrary: h)
  case Nil
  then show ?case by simp
next
  case (Cons e es)
  have "length (push_history e h) \<le> 50"
    by (simp add: push_history_take)
  from Cons.IH [OF this] show ?case
    using take_append_take [of 50 "rev es" "e # h"]
    by (simp add: push_history_take)
qed

lemma handleGenerate_history:
  "history (handleGenerate st response a b) = history st \<or>
   (\<exists>d. finish_imageData (the response) (prompt st) = Some d \<and>
        history (handleGenerate st response a b) =
          push_history (newItem a b (prompt st) (params st) d) (history st))"
  by (auto simp: handleGenerate_def caught_def Let_def split: option.splits bool.splits)



section \<open>Where the regular expression cannot match\<close>

lemma ascii_lower_h: "ascii_lower CHR ''h'' = CHR ''h''"
  by (simp add: ascii_lower_def)

lemma match_here_needs_h:
  assumes "s = [] \<or> ascii_lower (hd s) \<noteq> CHR ''h''"
  shows "match_here s = None"
  using assms by (cases s) (auto simp: match_here_def ascii_lower_h)

lemma regex_search_needs_h:
  "\<forall>c\<in>set s. ascii_lower c \<noteq> CHR ''h'' \<Longrightarrow> regex_search s = None"
  by (induction s) (simp_all add: match_here_needs_h)

lemma digit_not_h: "c \<in> set ''0123456789'' \<Longrightarrow> ascii_lower c \<noteq> CHR ''h''"
  by (auto simp: ascii_lower_def)

lemma regex_search_show_int: "regex_search (show_int n) = None"
proof (rule regex_search_needs_h, rule ballI)
  fix c assume c: "c \<in> set (show_int n)"
  have "c = CHR ''-'' \<or> (\<exists>m. c \<in> set (show_nat m))"
  proof (cases "n < 0")
    case True
    with c have "c = CHR ''-'' \<or> c \<in> set (show_nat (nat (- n)))"
      by (simp add: show_int_def)
    then show ?thesis by blast
  next
    case False
    with c have "c \<in> set (show_nat (nat n))"
      by (simp add: show_int_def)
    then show ?thesis by blast
  qed
  then have "c = CHR ''-'' \<or> c \<in> set ''0123456789''"
    using show_nat_digits by blast
  then show "ascii_lower c \<noteq> CHR ''h''"
  proof
    assume "c = CHR ''-''"
    then show ?thesis by (simp add: ascii_lower_def)
  next
    assume "c \<in> set ''0123456789''"
    then show ?thesis by (rule digit_not_h)
  qed
qed

lemma extractImageResult_no_fields:
  assumes "\<And>k. opt_member v k = JUndefined" and "\<not> is_string v"
  shows "extractImageResult v = extract_fallback v"
  using assms
  by (simp add: extractImageResult_def extract_case2_def extract_case3_def extract_case4_def
      extract_case5_def and_is_string_def)

section \<open>Claims about the extraction\<close>

text \<open>
  Claim C2, as amended. For every response whose \<open>text\<close> is a non-empty string,
  \<open>extractImageResult\<close> returns the parse of that text at once, whether or not the parse
  has an image URL and whatever else the response carries: no later case is consulted.
  (The guard of case 1 tests the text for truthiness, so an empty \<open>text\<close> is passed over.)
\<close>

theorem C2_text_returned_immediately:
  assumes "opt_member raw ''text'' = JStr t" and "t \<noteq> []"
  shows "extractImageResult raw = Some (parseAgentTextResponse (JStr t))"
proof -
  have "member raw ''text'' = Some (JStr t)"
    using assms(1) member_defined [of raw "''text''"] by simp
  then show ?thesis
    using assms by (simp add: extractImageResult_def and_is_string_def)
qed

theorem C2_text_returned_immediately_witness:
  "opt_member (JObj [(''text'', JStr ''style: x''),
                     (''data'', JObj [(''image_url'', JStr ''http://a.com/i.png'')]),
                     (''image_url'', JStr ''http://b.com/j.png'')]) ''text'' = JStr ''style: x'' \<and>
   ''style: x'' \<noteq> [] \<and>
   extractImageResult (JObj [(''text'', JStr ''style: x''),
                     (''data'', JObj [(''image_url'', JStr ''http://a.com/i.png'')]),
                     (''image_url'', JStr ''http://b.com/j.png'')]) =
     Some \<lparr>image_url = JStr [], enhanced_prompt = JStr [], original_prompt = JStr [],
           style = JStr ''x'', generation_metadata = JStr []\<rparr>"
proof -
  have h1: "opt_member (JObj [(''text'', JStr ''style: x''),
                     (''data'', JObj [(''image_url'', JStr ''http://a.com/i.png'')]),
                     (''image_url'', JStr ''http://b.com/j.png'')]) ''text'' = JStr ''style: x''"
    by simp
  have h2: "''style: x'' \<noteq> []"
    by simp
  have p: "parseAgentTextResponse (JStr ''style: x'') =
             \<lparr>image_url = JStr [], enhanced_prompt = JStr [], original_prompt = JStr [],
              style = JStr ''x'', generation_metadata = JStr []\<rparr>"
    by code_simp
  from C2_text_returned_immediately [OF h1 h2]
  have "extractImageResult (JObj [(''text'', JStr ''style: x''),
                     (''data'', JObj [(''image_url'', JStr ''http://a.com/i.png'')]),
                     (''image_url'', JStr ''http://b.com/j.png'')]) =
     Some \<lparr>image_url = JStr [], enhanced_prompt = JStr [], original_prompt = JStr [],
           style = JStr ''x'', generation_metadata = JStr []\<rparr>"
    by (simp only: p)
  with h1 h2 show ?thesis
    by (intro conjI)
qed

text \<open>
  Claim C2 as stated fails for the empty text: with \<open>text\<close> the empty string and a
  populated \<open>data\<close>, the result is read from \<open>data\<close>, not the all-empty parse of the
  text.
\<close>

theorem C2_empty_text_counterexample:
  "opt_member (JObj [(''text'', JStr []),
                     (''data'', JObj [(''image_url'', JStr ''http://a.com/i.png'')])]) ''text'' =
     JStr [] \<and>
   extractImageResult (JObj [(''text'', JStr []),
                     (''data'', JObj [(''image_url'', JStr ''http://a.com/i.png'')])]) =
     Some \<lparr>image_url = JStr ''http://a.com/i.png'', enhanced_prompt = JStr [],
           original_prompt = JStr [], style = JStr [], generation_metadata = JStr []\<rparr> \<and>
   extractImageResult (JObj [(''text'', JStr []),
                     (''data'', JObj [(''image_url'', JStr ''http://a.com/i.png'')])]) \<noteq>
     Some (parseAgentTextResponse (JStr []))"
  by code_simp

text \<open>
  Claim C3, as amended. For every response whose \<open>text\<close> is not a non-empty string and
  whose \<open>message\<close> is a string: when the parse of the message has a non-empty image URL,
  that parse is the result, whatever \<open>data\<close> holds; when it has none, the parse is
  dropped and the result is that of the later cases (from case 3 on) alone.
\<close>

theorem C3_message_before_data:
  assumes "\<not> (truthy (opt_member raw ''text'') \<and> is_string (opt_member raw ''text''))"
    and "opt_member raw ''message'' = JStr m"
  shows "extractImageResult raw =
           (if truthy (image_url (parseAgentTextResponse (JStr m)))
            then Some (parseAgentTextResponse (JStr m))
            else extract_case3 raw)"
proof -
  have msg: "member raw ''message'' = Some (JStr m)"
    using assms(2) member_defined [of raw "''message''"] by simp
  have c1: "and_is_string (opt_member raw ''text'') (member raw ''text'') = Some False"
  proof (cases "truthy (opt_member raw ''text'')")
    case True
    then show ?thesis using assms(1) by (simp add: and_is_string_def truthy_opt_member)
  next
    case False
    then show ?thesis by (simp add: and_is_string_def)
  qed
  have e: "extractImageResult raw = extract_case2 raw"
    by (simp add: extractImageResult_def c1)
  have empty: "\<not> truthy (image_url (parseAgentTextResponse (JStr [])))"
    by (simp add: parseAgentTextResponse_def empty_result_def)
  show ?thesis
    using msg assms(2) empty
    by (cases "m = []") (simp_all add: e extract_case2_def and_is_string_def Let_def)
qed

theorem C3_message_before_data_witness:
  "\<not> (truthy (opt_member (JObj [(''message'', JStr ''image_url: http://a.com/i.png''),
           (''data'', JObj [(''image_url'', JStr ''http://b.com/j.png'')])]) ''text'') \<and>
       is_string (opt_member (JObj [(''message'', JStr ''image_url: http://a.com/i.png''),
           (''data'', JObj [(''image_url'', JStr ''http://b.com/j.png'')])]) ''text'')) \<and>
   opt_member (JObj [(''message'', JStr ''image_url: http://a.com/i.png''),
           (''data'', JObj [(''image_url'', JStr ''http://b.com/j.png'')])]) ''message'' =
     JStr ''image_url: http://a.com/i.png'' \<and>
   extractImageResult (JObj [(''message'', JStr ''image_url: http://a.com/i.png''),
           (''data'', JObj [(''image_url'', JStr ''http://b.com/j.png'')])]) =
     Some \<lparr>image_url = JStr ''http://a.com/i.png'', enhanced_prompt = JStr [],
           original_prompt = JStr [], style = JStr [], generation_metadata = JStr []\<rparr>"
proof -
  have h1: "\<not> (truthy (opt_member (JObj [(''message'', JStr ''image_url: http://a.com/i.png''),
           (''data'', JObj [(''image_url'', JStr ''http://b.com/j.png'')])]) ''text'') \<and>
       is_string (opt_member (JObj [(''message'', JStr ''image_url: http://a.com/i.png''),
           (''data'', JObj [(''image_url'', JStr ''http://b.com/j.png'')])]) ''text''))"
    by simp
  have h2: "opt_member (JObj [(''message'', JStr ''image_url: http://a.com/i.png''),
           (''data'', JObj [(''image_url'', JStr ''http://b.com/j.png'')])]) ''message'' =
     JStr ''image_url: http://a.com/i.png''"
    by simp
  have p: "parseAgentTextResponse (JStr ''image_url: http://a.com/i.png'') =
     \<lparr>image_url = JStr ''http://a.com/i.png'', enhanced_prompt = JStr [],
           original_prompt = JStr [], style = JStr [], generation_metadata = JStr []\<rparr>"
    by code_simp
  from C3_message_before_data [OF h1 h2]
  have "extractImageResult (JObj [(''message'', JStr ''image_url: http://a.com/i.png''),
           (''data'', JObj [(''image_url'', JStr ''http://b.com/j.png'')])]) =
     Some \<lparr>image_url = JStr ''http://a.com/i.png'', enhanced_prompt = JStr [],
           original_prompt = JStr [], style = JStr [], generation_metadata = JStr []\<rparr>"
    unfolding p by simp
  with h1 h2 show ?thesis
    by (intro conjI)
qed

text \<open>
  Claim C3 as stated fails when \<open>text\<close> is a non-empty string: case 1 returns the parse
  of the text, and the message, although its parse has an image URL, is never read.
\<close>

theorem C3_text_first_counterexample:
  "opt_member (JObj [(''text'', JStr ''style: x''),
                     (''message'', JStr ''image_url: http://a.com/i.png'')]) ''message'' =
     JStr ''image_url: http://a.com/i.png'' \<and>
   truthy (image_url (parseAgentTextResponse (JStr ''image_url: http://a.com/i.png''))) \<and>
   extractImageResult (JObj [(''text'', JStr ''style: x''),
                     (''message'', JStr ''image_url: http://a.com/i.png'')]) =
     Some \<lparr>image_url = JStr [], enhanced_prompt = JStr [], original_prompt = JStr [],
           style = JStr ''x'', generation_metadata = JStr []\<rparr> \<and>
   extractImageResult (JObj [(''text'', JStr ''style: x''),
                     (''message'', JStr ''image_url: http://a.com/i.png'')]) \<noteq>
     Some (parseAgentTextResponse (JStr ''image_url: http://a.com/i.png''))"
  by code_simp

section \<open>Claims about the history\<close>

text \<open>
  Claim C7. Appending an entry to a history puts it at the front and keeps the first 49
  entries of the old list behind it, unchanged and in their order, so the result has at
  most 50 entries; appending a sequence of entries to the empty history leaves the last 50
  of them, newest first, and for 55 entries these are all but the first five. The handler
  changes the history in no other way: after a call the history is the old one or the old
  one with the new entry appended.
\<close>

theorem C7_history_cap:
  "push_history e prev = e # take 49 prev \<and>
   length (push_history e prev) \<le> 50 \<and>
   foldl (\<lambda>h x. push_history x h) [] es = take 50 (rev es) \<and>
   (length es = 55 \<longrightarrow> foldl (\<lambda>h x. push_history x h) [] es = rev (drop 5 es)) \<and>
   (history (handleGenerate st response a b) = history st \<or>
    (\<exists>d. history (handleGenerate st response a b) =
           push_history (newItem a b (prompt st) (params st) d) (history st)))"
proof (intro conjI impI)
  show "push_history e prev = e # take 49 prev"
    by (simp add: push_history_def slice_def)
  show "length (push_history e prev) \<le> 50"
    by (simp add: push_history_take)
  show all: "foldl (\<lambda>h x. push_history x h) [] es = take 50 (rev es)"
    by (simp add: foldl_push_history)
  show "history (handleGenerate st response a b) = history st \<or>
    (\<exists>d. history (handleGenerate st response a b) =
           push_history (newItem a b (prompt st) (params st) d) (history st))"
    using handleGenerate_history [of st response a b] by blast
  assume "length es = 55"
  then have "take 50 (rev es) = rev (drop 5 es)"
    by (simp add: take_rev)
  with all show "foldl (\<lambda>h x. push_history x h) [] es = rev (drop 5 es)"
    by simp
qed

theorem C7_history_cap_witness:
  "length [0..<55] = 55 \<and>
   foldl (\<lambda>h x. push_history x h) [] [0..<55] = rev (drop 5 [0..<55]) \<and>
   length (rev (drop 5 [0..<55])) = 50 \<and>
   hd (rev (drop 5 [0..<55])) = 54 \<and> last (rev (drop 5 [0..<55])) = 5"
proof -
  have l: "length [0..<55] = 55"
    by simp
  note cap = C7_history_cap [where es = "[0..<55]", THEN conjunct2, THEN conjunct2,
      THEN conjunct2, THEN conjunct1]
  have "foldl (\<lambda>h x. push_history x h) [] [0..<55] = rev (drop 5 [0..<55])"
    using cap l by (rule mp)
  moreover have "length (rev (drop 5 [0..<55])) = 50"
    by simp
  moreover have "hd (rev (drop 5 [0..<55])) = 54"
    by (simp add: hd_rev last_drop)
  moreover have "last (rev (drop 5 [0..<55])) = 5"
    by (simp add: last_rev hd_drop_conv_nth)
  ultimately show ?thesis
    using l by (intro conjI)
qed

text \<open>
  Claim C8, as amended. The identifier of a new history entry is \<open>gen-\<close> followed by the
  decimal clock reading taken when the entry is made, and nothing else: there is no random
  suffix. Two new entries have the same identifier exactly when they were made at the same
  clock reading, whatever their other fields.
\<close>

theorem C8_id_is_clock_only:
  "h_id (newItem n t p ps r) = ''gen-'' @ show_int n \<and>
   (h_id (newItem n1 t1 p1 ps1 r1) = h_id (newItem n2 t2 p2 ps2 r2) \<longleftrightarrow> n1 = n2)"
  by (simp add: newItem_def gen_id_inj) (simp add: gen_id_def)

text \<open>
  Claim C8 as stated fails: two different entries made at one clock reading share their
  identifier.
\<close>

theorem C8_same_clock_counterexample:
  "newItem 1700000000000 1700000000000 ''a cat''
     \<lparr>gp_style = ''Realistic'', gp_size = ''Square'', gp_quality = ''HD''\<rparr> empty_result \<noteq>
   newItem 1700000000000 1700000000000 ''a dog''
     \<lparr>gp_style = ''Realistic'', gp_size = ''Square'', gp_quality = ''HD''\<rparr> empty_result \<and>
   h_id (newItem 1700000000000 1700000000000 ''a cat''
     \<lparr>gp_style = ''Realistic'', gp_size = ''Square'', gp_quality = ''HD''\<rparr> empty_result) =
   h_id (newItem 1700000000000 1700000000000 ''a dog''
     \<lparr>gp_style = ''Realistic'', gp_size = ''Square'', gp_quality = ''HD''\<rparr> empty_result)"
  by (simp add: newItem_def trim_def is_space_def)

section \<open>Claims about the enhancement-mode extraction\<close>

text \<open>
  Claim C9. \<open>extractImageData\<close> returns as summary the \<open>summary\<close> of the response, or
  the empty string when that is absent (\<open>null\<close> or \<open>undefined\<close>); each of the five data
  fields is the field of \<open>raw.data\<close> when present there, else the field of \<open>raw\<close> when
  present there, else the empty string. No text is parsed: a response that is itself a
  string gives the all-empty result, and a \<open>text\<close> or \<open>message\<close> property of the response
  has no influence on the result.
\<close>

theorem C9_enhancement_extraction:
  "summary (extractImageData raw) =
     (if nullish (opt_member raw ''summary'') then JStr [] else opt_member raw ''summary'') \<and>
   ed_enhanced_prompt (data (extractImageData raw)) =
     (if \<not> nullish (opt_member (opt_member raw ''data'') ''enhanced_prompt'')
        then opt_member (opt_member raw ''data'') ''enhanced_prompt''
      else if \<not> nullish (opt_member raw ''enhanced_prompt'') then opt_member raw ''enhanced_prompt''
      else JStr []) \<and>
   style_suggestion (data (extractImageData raw)) =
     (if \<not> nullish (opt_member (opt_member raw ''data'') ''style_suggestion'')
        then opt_member (opt_member raw ''data'') ''style_suggestion''
      else if \<not> nullish (opt_member raw ''style_suggestion'') then opt_member raw ''style_suggestion''
      else JStr []) \<and>
   size_recommendation (data (extractImageData raw)) =
     (if \<not> nullish (opt_member (opt_member raw ''data'') ''size_recommendation'')
        then opt_member (opt_member raw ''data'') ''size_recommendation''
      else if \<not> nullish (opt_member raw ''size_recommendation'')
        then opt_member raw ''size_recommendation''
      else JStr []) \<and>
   quality_notes (data (extractImageData raw)) =
     (if \<not> nullish (opt_member (opt_member raw ''data'') ''quality_notes'')
        then opt_member (opt_member raw ''data'') ''quality_notes''
      else if \<not> nullish (opt_member raw ''quality_notes'') then opt_member raw ''quality_notes''
      else JStr []) \<and>
   ed_original_prompt (data (extractImageData raw)) =
     (if \<not> nullish (opt_member (opt_member raw ''data'') ''original_prompt'')
        then opt_member (opt_member raw ''data'') ''original_prompt''
      else if \<not> nullish (opt_member raw ''original_prompt'') then opt_member raw ''original_prompt''
      else JStr []) \<and>
   extractImageData (JStr s) =
     \<lparr>data = \<lparr>ed_enhanced_prompt = JStr [], style_suggestion = JStr [],
              size_recommendation = JStr [], quality_notes = JStr [],
              ed_original_prompt = JStr []\<rparr>, summary = JStr []\<rparr> \<and>
   extractImageData (JObj ((''text'', v) # kvs)) = extractImageData (JObj kvs) \<and>
   extractImageData (JObj ((''message'', v) # kvs)) = extractImageData (JObj kvs)"
proof (intro conjI)
  show "summary (extractImageData raw) =
     (if nullish (opt_member raw ''summary'') then JStr [] else opt_member raw ''summary'')"
    by (simp add: extractImageData_def Let_def coalesce_def)
  show "ed_enhanced_prompt (data (extractImageData raw)) =
     (if \<not> nullish (opt_member (opt_member raw ''data'') ''enhanced_prompt'')
        then opt_member (opt_member raw ''data'') ''enhanced_prompt''
      else if \<not> nullish (opt_member raw ''enhanced_prompt'') then opt_member raw ''enhanced_prompt''
      else JStr [])"
    by (simp add: extractImageData_def Let_def coalesce_cases)
  show "style_suggestion (data (extractImageData raw)) =
     (if \<not> nullish (opt_member (opt_member raw ''data'') ''style_suggestion'')
        then opt_member (opt_member raw ''data'') ''style_suggestion''
      else if \<not> nullish (opt_member raw ''style_suggestion'') then opt_member raw ''style_suggestion''
      else JStr [])"
    by (simp add: extractImageData_def Let_def coalesce_cases)
  show "size_recommendation (data (extractImageData raw)) =
     (if \<not> nullish (opt_member (opt_member raw ''data'') ''size_recommendation'')
        then opt_member (opt_member raw ''data'') ''size_recommendation''
      else if \<not> nullish (opt_member raw ''size_recommendation'')
        then opt_member raw ''size_recommendation''
      else JStr [])"
    by (simp add: extractImageData_def Let_def coalesce_cases)
  show "quality_notes (data (extractImageData raw)) =
     (if \<not> nullish (opt_member (opt_member raw ''data'') ''quality_notes'')
        then opt_member (opt_member raw ''data'') ''quality_notes''
      else if \<not> nullish (opt_member raw ''quality_notes'') then opt_member raw ''quality_notes''
      else JStr [])"
    by (simp add: extractImageData_def Let_def coalesce_cases)
  show "ed_original_prompt (data (extractImageData raw)) =
     (if \<not> nullish (opt_member (opt_member raw ''data'') ''original_prompt'')
        then opt_member (opt_member raw ''data'') ''original_prompt''
      else if \<not> nullish (opt_member raw ''original_prompt'') then opt_member raw ''original_prompt''
      else JStr [])"
    by (simp add: extractImageData_def Let_def coalesce_cases)
  show "extractImageData (JStr s) =
     \<lparr>data = \<lparr>ed_enhanced_prompt = JStr [], style_suggestion = JStr [],
              size_recommendation = JStr [], quality_notes = JStr [],
              ed_original_prompt = JStr []\<rparr>, summary = JStr []\<rparr>"
    by (simp add: extractImageData_def Let_def coalesce_def)
  show "extractImageData (JObj ((''text'', v) # kvs)) = extractImageData (JObj kvs)"
    by (simp add: extractImageData_def)
  show "extractImageData (JObj ((''message'', v) # kvs)) = extractImageData (JObj kvs)"
    by (simp add: extractImageData_def)
qed

section \<open>The extraction never throws\<close>

lemma normal_JStr: "normal (JStr s)"
  by (simp add: normal_def)

lemma normal_js_or: "normal b \<Longrightarrow> normal (js_or a b)"
  by (simp add: normal_def js_or_def)

lemma parse_line_normal: "all_normal r \<Longrightarrow> all_normal (parse_line r l)"
  by (simp add: parse_line_def all_normal_def Let_def normal_JStr)

lemma foldl_parse_line_normal: "all_normal r \<Longrightarrow> all_normal (foldl parse_line r ls)"
  by (induction ls arbitrary: r) (simp_all add: parse_line_normal)

lemma empty_result_normal: "all_normal empty_result"
  by (simp add: all_normal_def empty_result_def normal_JStr)

lemma parseAgentTextResponse_normal: "all_normal (parseAgentTextResponse v)"
  by (cases v)
     (simp_all add: parseAgentTextResponse_def empty_result_normal foldl_parse_line_normal)

lemma JSON_stringify_defined: "v \<noteq> JUndefined \<Longrightarrow> \<exists>s. JSON_stringify v = Some s"
  by (cases v) simp_all

lemma extract_fallback_total: "\<exists>r. extract_fallback v = Some r \<and> all_normal r"
proof -
  have "js_or v (JObj []) \<noteq> JUndefined"
    by (auto simp: js_or_def)
  then obtain s where "JSON_stringify (js_or v (JObj [])) = Some s"
    using JSON_stringify_defined by blast
  then show ?thesis
    by (cases "regex_search s")
       (simp_all add: extract_fallback_def empty_result_def all_normal_def normal_JStr
          normal_js_or)
qed

lemma extract_case5_total: "\<exists>r. extract_case5 v = Some r \<and> all_normal r"
  by (simp add: extract_case5_def extract_fallback_total parseAgentTextResponse_normal)

lemma member_truthy: "truthy v \<Longrightarrow> member v k = Some (opt_member v k)"
  by (cases v) (simp_all add: member_def)

lemma extract_case4_total: "\<exists>r. extract_case4 v = Some r \<and> all_normal r"
proof (cases "truthy (opt_member v ''image_url'')")
  case True
  then have "\<not> nullish v"
    by (cases v) simp_all
  then show ?thesis
    using True
    by (simp add: extract_case4_def member_def all_normal_def normal_JStr normal_js_or)
next
  case False
  then show ?thesis
    by (simp add: extract_case4_def extract_case5_total)
qed

lemma extract_case3_total: "\<exists>r. extract_case3 v = Some r \<and> all_normal r"
proof (cases "truthy (opt_member v ''data'')")
  case True
  then have "member v ''data'' = Some (opt_member v ''data'')"
    by (rule truthy_opt_member)
  moreover have "\<And>k. member (opt_member v ''data'') k = Some (opt_member (opt_member v ''data'') k)"
    using True by (rule member_truthy)
  ultimately show ?thesis
    using True
    by (simp add: extract_case3_def member2_def all_normal_def normal_JStr normal_js_or)
next
  case False
  then show ?thesis
    by (simp add: extract_case3_def extract_case4_total)
qed

lemma and_is_string_total:
  "and_is_string (opt_member v k) (member v k) =
     Some (truthy (opt_member v k) \<and> is_string (opt_member v k))"
  by (cases "truthy (opt_member v k)") (simp_all add: and_is_string_def truthy_opt_member)

lemma extract_case2_total: "\<exists>r. extract_case2 v = Some r \<and> all_normal r"
proof (cases "truthy (opt_member v ''message'') \<and> is_string (opt_member v ''message'')")
  case True
  then show ?thesis
    using extract_case3_total [of v]
    by (auto simp: extract_case2_def and_is_string_def truthy_opt_member Let_def
        parseAgentTextResponse_normal)
next
  case False
  then show ?thesis
    using extract_case3_total [of v]
    by (auto simp: extract_case2_def and_is_string_total)
qed

lemma extractImageResult_total: "\<exists>r. extractImageResult v = Some r \<and> all_normal r"
proof (cases "truthy (opt_member v ''text'') \<and> is_string (opt_member v ''text'')")
  case True
  then show ?thesis
    by (auto simp: extractImageResult_def and_is_string_def truthy_opt_member
        parseAgentTextResponse_normal)
next
  case False
  then show ?thesis
    using extract_case2_total [of v]
    by (auto simp: extractImageResult_def and_is_string_total)
qed

lemma member2_truthy:
  assumes "truthy (opt_member (opt_member v a) b)"
  shows "member2 v a b = Some (opt_member (opt_member v a) b)"
proof -
  have "opt_member v a \<noteq> JUndefined"
    using assms by auto
  then have "member v a = Some (opt_member v a)"
    by (rule member_defined)
  then show ?thesis
    using assms by (simp add: member2_def truthy_opt_member)
qed

lemma parse_falsy: "\<not> truthy v \<Longrightarrow> parseAgentTextResponse v = empty_result"
  by (simp add: parseAgentTextResponse_def)

lemma parse_falsy_image_url:
  assumes "truthy (image_url (parseAgentTextResponse v))"
  shows "truthy v"
proof (rule ccontr)
  assume "\<not> truthy v"
  then have "image_url (parseAgentTextResponse v) = JStr []"
    by (simp add: parse_falsy empty_result_def)
  with assms show False by simp
qed

lemma finish_imageData_steps:
  assumes "extractImageResult (opt_member (opt_member result ''response'') ''result'') = Some d0"
  shows "finish_imageData result submitted =
           Some (let d2 = fallback_step
                            (fallback_step d0 (opt_member (opt_member result ''response'') ''message''))
                            (opt_member result ''raw_response'')
                 in if \<not> truthy (original_prompt d2)
                    then d2\<lparr>original_prompt := JStr (trim submitted)\<rparr> else d2)"
  using assms
  by (simp add: finish_imageData_def fallback_step_def Let_def member2_truthy truthy_opt_member)

lemma fallback_steps_spec:
  "(let d2 = fallback_step (fallback_step d0 msg) raw
    in if \<not> truthy (original_prompt d2)
       then d2\<lparr>original_prompt := JStr (trim submitted)\<rparr> else d2) =
   spec_finish d0 msg raw submitted"
proof (cases "truthy (image_url d0)")
  case True
  then show ?thesis
    by (simp add: fallback_step_def spec_finish_def spec_fallback_parse_def Let_def)
next
  case no_url: False
  show ?thesis
  proof (cases "truthy (image_url (parseAgentTextResponse msg))")
    case True
    then have "truthy msg" by (rule parse_falsy_image_url)
    with no_url True show ?thesis
      by (simp add: fallback_step_def fill_from_def spec_finish_def spec_fallback_parse_def
          Let_def)
  next
    case no_msg: False
    then have s1: "fallback_step d0 msg = d0"
      by (simp add: fallback_step_def fill_from_def)
    show ?thesis
    proof (cases "truthy (image_url (parseAgentTextResponse raw))")
      case True
      then have "truthy raw" by (rule parse_falsy_image_url)
      with no_url no_msg True show ?thesis
        by (simp add: s1) (simp add: fallback_step_def fill_from_def spec_finish_def
            spec_fallback_parse_def Let_def)
    next
      case False
      with no_url no_msg show ?thesis
        by (simp add: s1) (simp add: fallback_step_def fill_from_def spec_finish_def
            spec_fallback_parse_def Let_def)
    qed
  qed
qed

section \<open>The regular expression finds the first image URL\<close>

lemma ascii_lower_nonletter:
  assumes "ascii_lower c = d" and "\<not> (97 \<le> (of_char d :: nat) \<and> (of_char d :: nat) \<le> 122)"
  shows "c = d"
proof (cases "65 \<le> (of_char c :: nat) \<and> (of_char c :: nat) \<le> 90")
  case True
  then have "d = char_of ((of_char c :: nat) + 32)"
    using assms(1) by (simp add: ascii_lower_def)
  then have "(of_char d :: nat) = ((of_char c :: nat) + 32) mod 256"
    by simp
  with True have "(of_char d :: nat) = of_char c + 32"
    by simp
  with True assms(2) show ?thesis by simp
next
  case False
  then show ?thesis
    using assms(1) by (auto simp: ascii_lower_def Let_def)
qed

lemma ci_prefix_take:
  "ci_prefix p s \<Longrightarrow> length p \<le> length s \<and> map ascii_lower (take (length p) s) = map ascii_lower p"
proof (induction p arbitrary: s)
  case Nil
  show ?case by simp
next
  case (Cons a p)
  then show ?case by (cases s) auto
qed

lemma ci_prefix_append:
  "map ascii_lower x = map ascii_lower p \<Longrightarrow> ci_prefix p (x @ rest)"
proof (induction p arbitrary: x)
  case Nil
  show ?case by simp
next
  case (Cons a p)
  then show ?case by (cases x) auto
qed

lemma ci_prefix_colon_slashes:
  assumes "ci_prefix ''://'' s"
  shows "s = ''://'' @ drop 3 s"
proof -
  obtain a b c r where s: "s = a # b # c # r"
    using assms by (cases s; cases "tl s"; cases "tl (tl s)") auto
  with assms have "ascii_lower a = CHR '':''" "ascii_lower b = CHR ''/''" "ascii_lower c = CHR ''/''"
    by (simp_all add: ascii_lower_def)
  then have "a = CHR '':''" "b = CHR ''/''" "c = CHR ''/''"
    by (auto dest!: ascii_lower_nonletter)
  with s show ?thesis by simp
qed

lemma ci_prefix_dot:
  assumes "ci_prefix ''.'' s"
  shows "s = ''.'' @ drop 1 s"
proof -
  obtain a r where s: "s = a # r"
    using assms by (cases s) auto
  with assms have "ascii_lower a = CHR ''.''"
    by (simp add: ascii_lower_def)
  then have "a = CHR ''.''"
    by (auto dest!: ascii_lower_nonletter)
  with s show ?thesis by simp
qed

lemma ci_prefix_take_n:
  assumes "ci_prefix p s" and "n = length p"
  shows "n \<le> length s \<and> map ascii_lower (take n s) = map ascii_lower p"
  using ci_prefix_take [OF assms(1)] assms(2) by simp

lemma match_ext_sound:
  assumes "match_ext s = Some k"
  shows "k \<le> length s \<and> map ascii_lower (take k s) \<in> set image_exts"
proof -
  have "\<exists>p \<in> set image_exts. ci_prefix p s \<and> k = length p"
    using assms by (auto simp: match_ext_def image_exts_def split: if_splits)
  then obtain p where p: "p \<in> set image_exts" "ci_prefix p s" "k = length p"
    by blast
  from p(1) have "map ascii_lower p = p"
    by (auto simp: image_exts_def ascii_lower_def)
  with ci_prefix_take [OF p(2)] p show ?thesis
    by simp
qed

lemma match_dot_ext_sound:
  assumes "match_dot_ext s = Some k"
  shows "k \<le> length s \<and>
         (\<exists>ext. take k s = ''.'' @ ext \<and> map ascii_lower ext \<in> set image_exts)"
proof -
  from assms obtain j where dot: "ci_prefix ''.'' s"
    and j: "match_ext (drop 1 s) = Some j" and k: "k = Suc j"
    by (auto simp: match_dot_ext_def split: if_splits)
  from ci_prefix_dot [OF dot] obtain r where s: "s = CHR ''.'' # r"
    by (cases s) auto
  from match_ext_sound [OF j] s
  have "j \<le> length r" "map ascii_lower (take j r) \<in> set image_exts"
    by simp_all
  with s k show ?thesis
    by simp
qed

lemma match_run_sound:
  "match_run n s = Some k \<Longrightarrow>
     \<exists>j e. 1 \<le> j \<and> j \<le> n \<and> match_dot_ext (drop j s) = Some e \<and> k = j + e"
proof (induction n)
  case 0
  then show ?case by simp
next
  case (Suc n)
  show ?case
  proof (cases "match_dot_ext (drop (Suc n) s)")
    case None
    with Suc.prems have "match_run n s = Some k" by simp
    from Suc.IH [OF this] obtain j e
      where "1 \<le> j" "j \<le> n" "match_dot_ext (drop j s) = Some e" "k = j + e"
      by blast
    then show ?thesis
      by (intro exI [of _ j] exI [of _ e]) simp
  next
    case (Some e)
    with Suc.prems have "k = Suc n + e" by simp
    with Some show ?thesis
      by (intro exI [of _ "Suc n"] exI [of _ e]) simp
  qed
qed

lemma take_within_takeWhile:
  assumes "j \<le> length (takeWhile P xs)"
  shows "list_all P (take j xs)"
proof -
  have "take j (take (length (takeWhile P xs)) xs) = take j xs"
    using assms by (simp add: min_def)
  then have "take j xs = take j (takeWhile P xs)"
    by (simp only: takeWhile_eq_take [symmetric])
  moreover have "list_all P (takeWhile P xs)"
    by (simp add: list_all_iff) (meson set_takeWhileD)
  ultimately show ?thesis
    by (simp add: list_all_iff) (meson in_set_takeD)
qed

lemma match_after_scheme_sound:
  assumes "match_after_scheme s = Some k"
  shows "k \<le> length s \<and>
         (\<exists>body ext. take k s = ''://'' @ body @ ''.'' @ ext \<and> body \<noteq> [] \<and>
            list_all url_char body \<and> map ascii_lower ext \<in> set image_exts)"
proof -
  from assms obtain k' where pre: "ci_prefix ''://'' s"
    and run: "match_run (length (takeWhile url_char (drop 3 s))) (drop 3 s) = Some k'"
    and k: "k = 3 + k'"
    by (auto simp: match_after_scheme_def split: if_splits)
  define b where "b = drop 3 s"
  from ci_prefix_colon_slashes [OF pre] have s: "s = ''://'' @ b"
    by (simp add: b_def)
  from match_run_sound [OF run] obtain j e where j: "1 \<le> j" "j \<le> length (takeWhile url_char b)"
    and e: "match_dot_ext (drop j b) = Some e" and k': "k' = j + e"
    by (auto simp: b_def)
  from match_dot_ext_sound [OF e] obtain ext where e_le: "e \<le> length (drop j b)"
    and ext: "take e (drop j b) = ''.'' @ ext" "map ascii_lower ext \<in> set image_exts"
    by blast
  have jb: "j \<le> length b"
    using j(2) length_takeWhile_le [of url_char b] by linarith
  have body: "list_all url_char (take j b)"
    using j(2) by (rule take_within_takeWhile)
  have ne: "take j b \<noteq> []"
    using j(1) jb by (cases b) auto
  have "take k s = ''://'' @ take (j + e) b"
    by (subst s) (simp add: k k' numeral_3_eq_3)
  also have "take (j + e) b = take j b @ take e (drop j b)"
    by (simp add: take_add)
  finally have "take k s = ''://'' @ take j b @ ''.'' @ ext"
    using ext(1) by simp
  moreover have "k \<le> length s"
    using e_le jb by (subst s) (simp add: k k')
  ultimately show ?thesis
    using body ne ext(2) by blast
qed

lemma match_here_sound:
  assumes "match_here s = Some k"
  shows "k \<le> length s \<and> image_url_text (take k s)"
proof -
  from assms have http: "ci_prefix ''http'' s"
    by (auto simp: match_here_def split: if_splits)
  from ci_prefix_take_n [OF http, of 4]
  have l4: "4 \<le> length s" and t4: "map ascii_lower (take 4 s) = ''http''"
    by (simp_all add: ascii_lower_def)
  from assms http consider
      k' where "ci_prefix ''s'' (drop 4 s)" "match_after_scheme (drop 5 s) = Some k'" "k = 5 + k'"
    | k' where "match_after_scheme (drop 4 s) = Some k'" "k = 4 + k'"
    by (auto simp: match_here_def split: if_splits option.splits)
  then show ?thesis
  proof cases
    case 1
    from ci_prefix_take_n [OF 1(1), of 1]
    have l5: "5 \<le> length s" and t1: "map ascii_lower (take 1 (drop 4 s)) = ''s''"
      by (auto simp: ascii_lower_def)
    have "take 5 s = take 4 s @ take 1 (drop 4 s)"
      using take_add [of 4 1 s] by simp
    with t4 t1 have sch: "map ascii_lower (take 5 s) \<in> set [''http'', ''https'']"
      by simp
    from match_after_scheme_sound [OF 1(2)] obtain body ext
      where le: "k' \<le> length (drop 5 s)"
        and tk: "take k' (drop 5 s) = ''://'' @ body @ ''.'' @ ext"
        and ok: "body \<noteq> []" "list_all url_char body" "map ascii_lower ext \<in> set image_exts"
      by blast
    have "take k s = take 5 s @ take k' (drop 5 s)"
      by (simp add: 1(3) take_add)
    with tk have "take k s = take 5 s @ ''://'' @ body @ ''.'' @ ext"
      by simp
    moreover have "image_url_text (take 5 s @ ''://'' @ body @ ''.'' @ ext)"
      using sch ok by (rule image_url_text.intros)
    moreover have "k \<le> length s"
      using le l5 by (simp add: 1(3))
    ultimately show ?thesis by simp
  next
    case 2
    from t4 have sch: "map ascii_lower (take 4 s) \<in> set [''http'', ''https'']"
      by simp
    from match_after_scheme_sound [OF 2(1)] obtain body ext
      where le: "k' \<le> length (drop 4 s)"
        and tk: "take k' (drop 4 s) = ''://'' @ body @ ''.'' @ ext"
        and ok: "body \<noteq> []" "list_all url_char body" "map ascii_lower ext \<in> set image_exts"
      by blast
    have "take k s = take 4 s @ take k' (drop 4 s)"
      by (simp add: 2(2) take_add)
    with tk have "take k s = take 4 s @ ''://'' @ body @ ''.'' @ ext"
      by simp
    moreover have "image_url_text (take 4 s @ ''://'' @ body @ ''.'' @ ext)"
      using sch ok by (rule image_url_text.intros)
    moreover have "k \<le> length s"
      using le l4 by (simp add: 2(2))
    ultimately show ?thesis by simp
  qed
qed

lemma image_ext_lower: "p \<in> set image_exts \<Longrightarrow> map ascii_lower p = p"
  by (auto simp: image_exts_def ascii_lower_def)

lemma match_ext_complete:
  assumes "map ascii_lower ext \<in> set image_exts"
  shows "match_ext (ext @ rest) \<noteq> None"
proof -
  define p where "p = map ascii_lower ext"
  have "map ascii_lower ext = map ascii_lower p"
    using assms image_ext_lower [of p] by (simp add: p_def)
  then have "ci_prefix p (ext @ rest)"
    by (rule ci_prefix_append)
  moreover have "p \<in> set image_exts"
    using assms by (simp add: p_def)
  ultimately show ?thesis
    by (auto simp: match_ext_def image_exts_def)
qed

lemma match_dot_ext_complete:
  assumes "map ascii_lower ext \<in> set image_exts"
  shows "match_dot_ext (''.'' @ ext @ rest) \<noteq> None"
  using match_ext_complete [OF assms, of rest] by (auto simp: match_dot_ext_def)

lemma match_run_complete:
  "1 \<le> j \<Longrightarrow> j \<le> n \<Longrightarrow> match_dot_ext (drop j s) \<noteq> None \<Longrightarrow> match_run n s \<noteq> None"
proof (induction n)
  case 0
  then show ?case by simp
next
  case (Suc n)
  show ?case
  proof (cases "match_dot_ext (drop (Suc n) s)")
    case (Some e)
    then show ?thesis by simp
  next
    case None
    with Suc.prems have "j \<le> n"
      by (cases "j = Suc n") auto
    with Suc.IH Suc.prems None show ?thesis by simp
  qed
qed

lemma match_after_scheme_complete:
  assumes "body \<noteq> []" and "list_all url_char body" and "map ascii_lower ext \<in> set image_exts"
  shows "match_after_scheme (''://'' @ body @ ''.'' @ ext @ rest) \<noteq> None"
proof -
  define b where "b = body @ ''.'' @ ext @ rest"
  have "takeWhile url_char b = body @ takeWhile url_char (''.'' @ ext @ rest)"
    unfolding b_def using assms(2) by (intro takeWhile_append2) (simp add: list_all_iff)
  then have n: "length body \<le> length (takeWhile url_char b)"
    by simp
  have "1 \<le> length body"
    using assms(1) by (cases body) auto
  moreover have "match_dot_ext (drop (length body) b) \<noteq> None"
    using match_dot_ext_complete [OF assms(3), of rest] by (simp add: b_def)
  ultimately have "match_run (length (takeWhile url_char b)) b \<noteq> None"
    using n by (intro match_run_complete [of "length body"])
  then show ?thesis
    by (auto simp: match_after_scheme_def b_def)
qed

lemma match_here_complete:
  assumes "image_url_text m"
  shows "match_here (m @ rest) \<noteq> None"
  using assms
proof cases
  case (1 scheme body ext)
  define R where "R = ''://'' @ body @ ''.'' @ ext @ rest"
  have mR: "m @ rest = scheme @ R"
    by (simp add: 1(1) R_def)
  have after: "match_after_scheme R \<noteq> None"
    unfolding R_def using 1(3,4,5) by (rule match_after_scheme_complete)
  have no_s: "\<not> ci_prefix ''s'' R"
    by (simp add: R_def ascii_lower_def)
  from 1(2) consider "map ascii_lower scheme = ''http''" | "map ascii_lower scheme = ''https''"
    by auto
  then show ?thesis
  proof cases
    case 1
    then have "length (map ascii_lower scheme) = length ''http''"
      by (simp only:)
    then have len: "length scheme = 4"
      by simp
    have "map ascii_lower scheme = map ascii_lower ''http''"
      using 1 by (simp add: ascii_lower_def)
    then have "ci_prefix ''http'' (scheme @ R)"
      by (rule ci_prefix_append)
    moreover have "drop 4 (scheme @ R) = R"
      using len by simp
    ultimately show ?thesis
      using after no_s by (auto simp: match_here_def mR)
  next
    case 2
    then have "length (map ascii_lower scheme) = length ''https''"
      by (simp only:)
    then have len: "length scheme = 5"
      by simp
    have "map ascii_lower (take 4 scheme) = take 4 (map ascii_lower scheme)"
      by (simp add: take_map)
    then have "map ascii_lower (take 4 scheme) = map ascii_lower ''http''"
      using 2 by (simp add: ascii_lower_def)
    then have "ci_prefix ''http'' (take 4 scheme @ (drop 4 scheme @ R))"
      by (rule ci_prefix_append)
    moreover have "take 4 scheme @ (drop 4 scheme @ R) = scheme @ R"
      by (simp add: append_assoc [symmetric] del: append_assoc)
    ultimately have p1: "ci_prefix ''http'' (scheme @ R)"
      by (simp only:)
    have "map ascii_lower (drop 4 scheme) = drop 4 (map ascii_lower scheme)"
      by (simp add: drop_map)
    then have "map ascii_lower (drop 4 scheme) = map ascii_lower ''s''"
      using 2 by (simp add: ascii_lower_def)
    then have "ci_prefix ''s'' (drop 4 scheme @ R)"
      by (rule ci_prefix_append)
    then have p2: "ci_prefix ''s'' (drop 4 (scheme @ R))"
      using len by simp
    have "drop 5 (scheme @ R) = R"
      using len by simp
    with p1 p2 after show ?thesis
      by (auto simp: match_here_def mR)
  qed
qed

lemma match_here_Nil: "match_here [] = None"
  by (simp add: match_here_def)

lemma regex_search_leftmost:
  "regex_search s = Some m \<Longrightarrow>
     \<exists>pre post. s = pre @ m @ post \<and> image_url_text m \<and>
       (\<forall>i<length pre. match_here (drop i s) = None)"
proof (induction s)
  case Nil
  then show ?case by simp
next
  case (Cons c cs)
  show ?case
  proof (cases "match_here (c # cs)")
    case (Some n)
    with Cons.prems have m: "m = take n (c # cs)" by simp
    from match_here_sound [OF Some] have "image_url_text m"
      by (simp add: m)
    moreover have "c # cs = [] @ m @ drop n (c # cs)"
      by (simp add: m)
    moreover have "\<forall>i<length ([] :: string). match_here (drop i (c # cs)) = None"
      by simp
    ultimately show ?thesis
      by blast
  next
    case None
    with Cons.prems have "regex_search cs = Some m" by simp
    from Cons.IH [OF this] obtain pre post where cs: "cs = pre @ m @ post"
      and ok: "image_url_text m" and left: "\<forall>i<length pre. match_here (drop i cs) = None"
      by blast
    have "\<forall>i<length (c # pre). match_here (drop i (c # cs)) = None"
    proof (intro allI impI)
      fix i assume "i < length (c # pre)"
      then show "match_here (drop i (c # cs)) = None"
        using None left by (cases i) simp_all
    qed
    moreover have "c # cs = (c # pre) @ m @ post"
      by (simp add: cs)
    ultimately show ?thesis
      using ok by blast
  qed
qed

lemma regex_search_first:
  assumes "regex_search s = Some m"
  shows "image_url_text m \<and>
         (\<exists>pre post. s = pre @ m @ post \<and>
            (\<forall>pre' m' post'. s = pre' @ m' @ post' \<and> image_url_text m' \<longrightarrow>
               length pre \<le> length pre'))"
proof -
  from regex_search_leftmost [OF assms] obtain pre post where s: "s = pre @ m @ post"
    and ok: "image_url_text m" and left: "\<forall>i<length pre. match_here (drop i s) = None"
    by blast
  have "length pre \<le> length pre'" if "s = pre' @ m' @ post'" "image_url_text m'"
    for pre' m' post'
  proof (rule ccontr)
    assume "\<not> length pre \<le> length pre'"
    then have "match_here (drop (length pre') s) = None"
      using left by simp
    moreover have "drop (length pre') s = m' @ post'"
      by (simp add: that(1))
    ultimately show False
      using match_here_complete [OF that(2), of post'] by simp
  qed
  with s ok show ?thesis by blast
qed

lemma regex_search_none:
  "regex_search s = None \<Longrightarrow> match_here (drop i s) = None"
proof (induction s arbitrary: i)
  case Nil
  show ?case by (simp add: match_here_Nil)
next
  case (Cons c cs)
  then have here: "match_here (c # cs) = None" and rest: "regex_search cs = None"
    by (simp_all split: option.splits)
  show ?case
    using here Cons.IH [OF rest] by (cases i) simp_all
qed

lemma regex_search_none_no_url:
  assumes "regex_search s = None" and "s = pre @ m @ post"
  shows "\<not> image_url_text m"
proof
  assume "image_url_text m"
  then have "match_here (m @ post) \<noteq> None"
    by (rule match_here_complete)
  moreover have "drop (length pre) s = m @ post"
    by (simp add: assms(2))
  ultimately show False
    using regex_search_none [OF assms(1), of "length pre"] by simp
qed

lemma reaches_fallback:
  assumes "\<not> (truthy (opt_member raw ''text'') \<and> is_string (opt_member raw ''text''))"
    and "\<not> (is_string (opt_member raw ''message'') \<and>
            truthy (image_url (parseAgentTextResponse (opt_member raw ''message''))))"
    and "\<not> truthy (opt_member raw ''data'')"
    and "\<not> truthy (opt_member raw ''image_url'')"
    and "\<not> is_string raw"
  shows "extractImageResult raw = extract_fallback raw"
proof -
  have 1: "extractImageResult raw = extract_case2 raw"
    using assms(1) by (auto simp: extractImageResult_def and_is_string_total)
  have 2: "extract_case2 raw = extract_case3 raw"
  proof (cases "truthy (opt_member raw ''message'') \<and> is_string (opt_member raw ''message'')")
    case True
    then have "member raw ''message'' = Some (opt_member raw ''message'')"
      by (simp add: truthy_opt_member)
    with True assms(2) show ?thesis
      by (simp add: extract_case2_def and_is_string_def Let_def)
  next
    case False
    then show ?thesis
      by (auto simp: extract_case2_def and_is_string_total)
  qed
  have 3: "extract_case3 raw = extract_fallback raw"
    using assms(3,4,5) by (simp add: extract_case3_def extract_case4_def extract_case5_def)
  from 1 2 3 show ?thesis by simp
qed

section \<open>Claims about the fallback and the caller\<close>

text \<open>
  Claim C5. For \<open>null\<close>, \<open>undefined\<close>, every number and the empty object,
  \<open>extractImageResult\<close> returns (so does not throw) the record whose five fields are all
  the empty string. Indeed no response at all makes it throw: it returns a record for every
  value.
\<close>

theorem C5_empty_inputs_give_empty_record:
  "extractImageResult JNull =
     Some \<lparr>image_url = JStr [], enhanced_prompt = JStr [], original_prompt = JStr [],
           style = JStr [], generation_metadata = JStr []\<rparr> \<and>
   extractImageResult JUndefined =
     Some \<lparr>image_url = JStr [], enhanced_prompt = JStr [], original_prompt = JStr [],
           style = JStr [], generation_metadata = JStr []\<rparr> \<and>
   extractImageResult (JNum n) =
     Some \<lparr>image_url = JStr [], enhanced_prompt = JStr [], original_prompt = JStr [],
           style = JStr [], generation_metadata = JStr []\<rparr> \<and>
   extractImageResult (JObj []) =
     Some \<lparr>image_url = JStr [], enhanced_prompt = JStr [], original_prompt = JStr [],
           style = JStr [], generation_metadata = JStr []\<rparr> \<and>
   (\<exists>r. extractImageResult raw = Some r)"
proof -
  have braces: "regex_search ''{}'' = None"
    by (rule regex_search_needs_h) (simp add: ascii_lower_def)
  have 1: "extractImageResult JNull = Some empty_result"
    by (simp add: extractImageResult_no_fields extract_fallback_def js_or_def braces
        del: regex_search.simps)
  have 2: "extractImageResult JUndefined = Some empty_result"
    by (simp add: extractImageResult_no_fields extract_fallback_def js_or_def braces
        del: regex_search.simps)
  have 3: "extractImageResult (JNum n) = Some empty_result"
    by (simp add: extractImageResult_no_fields extract_fallback_def js_or_def braces
        regex_search_show_int del: regex_search.simps)
  have 4: "extractImageResult (JObj []) = Some empty_result"
    by (simp add: extractImageResult_no_fields extract_fallback_def js_or_def braces
        del: regex_search.simps)
  have 5: "\<exists>r. extractImageResult raw = Some r"
    using extractImageResult_total [of raw] by blast
  from 1 2 3 4 5 show ?thesis
    by (simp add: empty_result_def)
qed

text \<open>
  Claim C4. When no earlier case applies, the response (or \<open>{}\<close> in place of a falsy one)
  is printed as JSON and searched. If the search finds a text \<open>m\<close>, the result has
  \<open>m\<close> as image URL, the enhanced prompt from \<open>raw.enhanced_prompt\<close>, else from
  \<open>raw.summary\<close>, else empty, the original prompt and the style from \<open>raw\<close>, and empty
  metadata; \<open>m\<close> is an http(s) URL text ending in an image extension, it occurs in the
  JSON text, and no such text starts earlier there. If the search finds nothing, no part of
  the JSON text is such a URL and the result is all empty.

  Each hypothesis is implied by the matching condition of the claim: no string \<open>text\<close>,
  no message whose parse has an image URL, no \<open>data\<close>, no top-level \<open>image_url\<close>,
  not a string.
\<close>

theorem C4_url_sniffing_fallback:
  assumes "\<not> (truthy (opt_member raw ''text'') \<and> is_string (opt_member raw ''text''))"
    and "\<not> (is_string (opt_member raw ''message'') \<and>
            truthy (image_url (parseAgentTextResponse (opt_member raw ''message''))))"
    and "\<not> truthy (opt_member raw ''data'')"
    and "\<not> truthy (opt_member raw ''image_url'')"
    and "\<not> is_string raw"
  shows "\<exists>str. JSON_stringify (js_or raw (JObj [])) = Some str \<and>
           (\<forall>m. regex_search str = Some m \<longrightarrow>
              extractImageResult raw =
                Some \<lparr>image_url = JStr m,
                      enhanced_prompt =
                        js_or (js_or (opt_member raw ''enhanced_prompt'') (opt_member raw ''summary''))
                          (JStr []),
                      original_prompt = js_or (opt_member raw ''original_prompt'') (JStr []),
                      style = js_or (opt_member raw ''style'') (JStr []),
                      generation_metadata = JStr []\<rparr> \<and>
              image_url_text m \<and>
              (\<exists>pre post. str = pre @ m @ post \<and>
                 (\<forall>pre' m' post'. str = pre' @ m' @ post' \<and> image_url_text m' \<longrightarrow>
                    length pre \<le> length pre'))) \<and>
           (regex_search str = None \<longrightarrow>
              extractImageResult raw = Some empty_result \<and>
              (\<forall>pre m post. str = pre @ m @ post \<longrightarrow> \<not> image_url_text m))"
proof -
  have "js_or raw (JObj []) \<noteq> JUndefined"
    by (auto simp: js_or_def)
  then obtain str where str: "JSON_stringify (js_or raw (JObj [])) = Some str"
    using JSON_stringify_defined by blast
  have fb: "extractImageResult raw = extract_fallback raw"
    using assms by (rule reaches_fallback)
  have found: "extractImageResult raw =
                Some \<lparr>image_url = JStr m,
                      enhanced_prompt =
                        js_or (js_or (opt_member raw ''enhanced_prompt'') (opt_member raw ''summary''))
                          (JStr []),
                      original_prompt = js_or (opt_member raw ''original_prompt'') (JStr []),
                      style = js_or (opt_member raw ''style'') (JStr []),
                      generation_metadata = JStr []\<rparr> \<and>
              image_url_text m \<and>
              (\<exists>pre post. str = pre @ m @ post \<and>
                 (\<forall>pre' m' post'. str = pre' @ m' @ post' \<and> image_url_text m' \<longrightarrow>
                    length pre \<le> length pre'))"
    if m: "regex_search str = Some m" for m
    using regex_search_first [OF m] by (simp add: fb extract_fallback_def str m)
  have none: "extractImageResult raw = Some empty_result \<and>
              (\<forall>pre m post. str = pre @ m @ post \<longrightarrow> \<not> image_url_text m)"
    if n: "regex_search str = None"
    using regex_search_none_no_url [OF n] by (simp add: fb extract_fallback_def str n)
  have A: "\<forall>m. regex_search str = Some m \<longrightarrow>
              extractImageResult raw =
                Some \<lparr>image_url = JStr m,
                      enhanced_prompt =
                        js_or (js_or (opt_member raw ''enhanced_prompt'') (opt_member raw ''summary''))
                          (JStr []),
                      original_prompt = js_or (opt_member raw ''original_prompt'') (JStr []),
                      style = js_or (opt_member raw ''style'') (JStr []),
                      generation_metadata = JStr []\<rparr> \<and>
              image_url_text m \<and>
              (\<exists>pre post. str = pre @ m @ post \<and>
                 (\<forall>pre' m' post'. str = pre' @ m' @ post' \<and> image_url_text m' \<longrightarrow>
                    length pre \<le> length pre'))"
    using found by (intro allI impI)
  have B: "regex_search str = None \<longrightarrow>
              extractImageResult raw = Some empty_result \<and>
              (\<forall>pre m post. str = pre @ m @ post \<longrightarrow> \<not> image_url_text m)"
    using none by (intro impI)
  show ?thesis
    using str A B by (intro exI [of _ str] conjI) assumption+
qed

text \<open>
  The scenario of the specification: for \<^verbatim>\<open>{ note: "see https://x.com/pic.PNG for result" }\<close>
  the image URL is \<^verbatim>\<open>https://x.com/pic.PNG\<close>.
\<close>

theorem C4_url_sniffing_fallback_witness:
  "JSON_stringify (js_or (JObj [(''note'', JStr ''see https://x.com/pic.PNG for result'')]) (JObj [])) =
     Some ([CHR ''{'', CHR 0x22] @ ''note'' @ [CHR 0x22, CHR '':'', CHR 0x22] @
           ''see https://x.com/pic.PNG for result'' @ [CHR 0x22, CHR ''}'']) \<and>
   regex_search ([CHR ''{'', CHR 0x22] @ ''note'' @ [CHR 0x22, CHR '':'', CHR 0x22] @
           ''see https://x.com/pic.PNG for result'' @ [CHR 0x22, CHR ''}'']) =
     Some ''https://x.com/pic.PNG'' \<and>
   extractImageResult (JObj [(''note'', JStr ''see https://x.com/pic.PNG for result'')]) =
     Some \<lparr>image_url = JStr ''https://x.com/pic.PNG'', enhanced_prompt = JStr [],
           original_prompt = JStr [], style = JStr [], generation_metadata = JStr []\<rparr> \<and>
   image_url_text ''https://x.com/pic.PNG''"
proof -
  let ?raw = "JObj [(''note'', JStr ''see https://x.com/pic.PNG for result'')]"
  let ?str = "[CHR ''{'', CHR 0x22] @ ''note'' @ [CHR 0x22, CHR '':'', CHR 0x22] @
           ''see https://x.com/pic.PNG for result'' @ [CHR 0x22, CHR ''}'']"
  have h1: "\<not> (truthy (opt_member ?raw ''text'') \<and> is_string (opt_member ?raw ''text''))"
    by simp
  have h2: "\<not> (is_string (opt_member ?raw ''message'') \<and>
            truthy (image_url (parseAgentTextResponse (opt_member ?raw ''message''))))"
    by simp
  have h3: "\<not> truthy (opt_member ?raw ''data'')"
    by simp
  have h4: "\<not> truthy (opt_member ?raw ''image_url'')"
    by simp
  have h5: "\<not> is_string ?raw"
    by simp
  have s: "JSON_stringify (js_or ?raw (JObj [])) = Some ?str"
    by code_simp
  have r: "regex_search ?str = Some ''https://x.com/pic.PNG''"
    by code_simp
  have o: "js_or (js_or (opt_member ?raw ''enhanced_prompt'') (opt_member ?raw ''summary''))
                          (JStr []) = JStr []"
      "js_or (opt_member ?raw ''original_prompt'') (JStr []) = JStr []"
      "js_or (opt_member ?raw ''style'') (JStr []) = JStr []"
    by (simp_all add: js_or_def)
  from C4_url_sniffing_fallback [OF h1 h2 h3 h4 h5] obtain str
    where str: "JSON_stringify (js_or ?raw (JObj [])) = Some str"
      and found: "\<forall>m. regex_search str = Some m \<longrightarrow>
              extractImageResult ?raw =
                Some \<lparr>image_url = JStr m,
                      enhanced_prompt =
                        js_or (js_or (opt_member ?raw ''enhanced_prompt'') (opt_member ?raw ''summary''))
                          (JStr []),
                      original_prompt = js_or (opt_member ?raw ''original_prompt'') (JStr []),
                      style = js_or (opt_member ?raw ''style'') (JStr []),
                      generation_metadata = JStr []\<rparr> \<and>
              image_url_text m"
    by blast
  from str s have "str = ?str"
    by (simp only: option.inject)
  with found r have
    "extractImageResult ?raw =
                Some \<lparr>image_url = JStr ''https://x.com/pic.PNG'',
                      enhanced_prompt =
                        js_or (js_or (opt_member ?raw ''enhanced_prompt'') (opt_member ?raw ''summary''))
                          (JStr []),
                      original_prompt = js_or (opt_member ?raw ''original_prompt'') (JStr []),
                      style = js_or (opt_member ?raw ''style'') (JStr []),
                      generation_metadata = JStr []\<rparr> \<and>
              image_url_text ''https://x.com/pic.PNG''"
    by blast
  then have "extractImageResult ?raw =
     Some \<lparr>image_url = JStr ''https://x.com/pic.PNG'', enhanced_prompt = JStr [],
           original_prompt = JStr [], style = JStr [], generation_metadata = JStr []\<rparr> \<and>
     image_url_text ''https://x.com/pic.PNG''"
    by (simp only: o)
  with s r show ?thesis
    by (intro conjI) simp_all
qed

text \<open>
  Claim C6. After the extraction gave the record \<open>d0\<close>, the caller's result is \<open>d0\<close>
  changed as follows. While the image URL is empty, the parse of \<open>response.message\<close> and
  then the parse of \<open>raw_response\<close> is consulted, and the first of them that has an image
  URL gives the image URL, and the enhanced prompt and the style where \<open>d0\<close> had none. A
  field that \<open>d0\<close> had populated keeps its value; the metadata is never touched; an empty
  original prompt becomes the trimmed prompt of the user. Every field of \<open>d0\<close> is the
  empty string or truthy, so "empty" is "falsy". The caller's computation does not throw.
\<close>

theorem C6_caller_fallbacks:
  assumes "extractImageResult (opt_member (opt_member result ''response'') ''result'') = Some d0"
  shows "finish_imageData result submitted =
           Some (spec_finish d0 (opt_member (opt_member result ''response'') ''message'')
                   (opt_member result ''raw_response'') submitted) \<and>
         all_normal d0 \<and>
         (\<forall>d. finish_imageData result submitted = Some d \<longrightarrow>
            (truthy (image_url d0) \<longrightarrow>
               image_url d = image_url d0 \<and> enhanced_prompt d = enhanced_prompt d0 \<and>
               style d = style d0) \<and>
            (truthy (enhanced_prompt d0) \<longrightarrow> enhanced_prompt d = enhanced_prompt d0) \<and>
            (truthy (style d0) \<longrightarrow> style d = style d0) \<and>
            (truthy (original_prompt d0) \<longrightarrow> original_prompt d = original_prompt d0) \<and>
            (\<not> truthy (original_prompt d0) \<longrightarrow> original_prompt d = JStr (trim submitted)) \<and>
            generation_metadata d = generation_metadata d0)"
proof -
  have fin: "finish_imageData result submitted =
           Some (spec_finish d0 (opt_member (opt_member result ''response'') ''message'')
                   (opt_member result ''raw_response'') submitted)"
    using finish_imageData_steps [OF assms, of submitted]
    by (simp only: fallback_steps_spec)
  have norm: "all_normal d0"
    using extractImageResult_total [of "opt_member (opt_member result ''response'') ''result''"]
      assms by simp
  have frame:
    "(truthy (image_url d0) \<longrightarrow>
        image_url d = image_url d0 \<and> enhanced_prompt d = enhanced_prompt d0 \<and>
        style d = style d0) \<and>
     (truthy (enhanced_prompt d0) \<longrightarrow> enhanced_prompt d = enhanced_prompt d0) \<and>
     (truthy (style d0) \<longrightarrow> style d = style d0) \<and>
     (truthy (original_prompt d0) \<longrightarrow> original_prompt d = original_prompt d0) \<and>
     (\<not> truthy (original_prompt d0) \<longrightarrow> original_prompt d = JStr (trim submitted)) \<and>
     generation_metadata d = generation_metadata d0"
    if "finish_imageData result submitted = Some d" for d
  proof -
    from that fin
    have d: "d = spec_finish d0 (opt_member (opt_member result ''response'') ''message'')
                   (opt_member result ''raw_response'') submitted"
      by simp
    show ?thesis
      by (simp add: d spec_finish_def spec_fallback_parse_def split: option.splits)
  qed
  from fin norm frame show ?thesis
    by blast
qed


theorem C6_caller_fallbacks_witness:
  "extractImageResult
     (opt_member (opt_member
        (JObj [(''success'', JBool True),
               (''response'', JObj [(''status'', JStr ''success''),
                  (''result'', JObj [(''text'', JStr ''enhanced_prompt: ep'')]),
                  (''message'', JStr ''image_url: http://a.com/i.png\<newline>enhanced_prompt: other\<newline>style: oil'')])])
        ''response'') ''result'') =
     Some \<lparr>image_url = JStr [], enhanced_prompt = JStr ''ep'', original_prompt = JStr [],
           style = JStr [], generation_metadata = JStr []\<rparr> \<and>
   finish_imageData
     (JObj [(''success'', JBool True),
            (''response'', JObj [(''status'', JStr ''success''),
               (''result'', JObj [(''text'', JStr ''enhanced_prompt: ep'')]),
               (''message'', JStr ''image_url: http://a.com/i.png\<newline>enhanced_prompt: other\<newline>style: oil'')])])
     ''  a cat '' =
     Some \<lparr>image_url = JStr ''http://a.com/i.png'', enhanced_prompt = JStr ''ep'',
           original_prompt = JStr ''a cat'', style = JStr ''oil'',
           generation_metadata = JStr []\<rparr>"
proof -
  let ?result = "JObj [(''success'', JBool True),
            (''response'', JObj [(''status'', JStr ''success''),
               (''result'', JObj [(''text'', JStr ''enhanced_prompt: ep'')]),
               (''message'', JStr ''image_url: http://a.com/i.png\<newline>enhanced_prompt: other\<newline>style: oil'')])]"
  let ?d0 = "\<lparr>image_url = JStr [], enhanced_prompt = JStr ''ep'', original_prompt = JStr [],
           style = JStr [], generation_metadata = JStr []\<rparr>"
  have h: "extractImageResult (opt_member (opt_member ?result ''response'') ''result'') = Some ?d0"
    by code_simp
  have e: "spec_finish ?d0 (opt_member (opt_member ?result ''response'') ''message'')
             (opt_member ?result ''raw_response'') ''  a cat '' =
           \<lparr>image_url = JStr ''http://a.com/i.png'', enhanced_prompt = JStr ''ep'',
            original_prompt = JStr ''a cat'', style = JStr ''oil'',
            generation_metadata = JStr []\<rparr>"
    by code_simp
  from C6_caller_fallbacks [OF h, of "''  a cat ''", THEN conjunct1]
  have "finish_imageData ?result ''  a cat '' =
          Some \<lparr>image_url = JStr ''http://a.com/i.png'', enhanced_prompt = JStr ''ep'',
                original_prompt = JStr ''a cat'', style = JStr ''oil'',
                generation_metadata = JStr []\<rparr>"
    by (simp only: e)
  with h show ?thesis
    by (intro conjI)
qed

end
